theory Spec2Isabelle
  imports Complex_Main "HOL-Library.Sublist" "HOL-Library.Log_Nat"
begin

section \<open>The NAT manager of js-libp2p (src/nat-manager.ts)\<close>

text \<open>
  The class \<^verbatim>\<open>NatManager\<close> is embedded as a record of its fields and one function per
  method. A method takes the manager and the trace of the calls made so far to the
  collaborators (transport manager, gateway client, address registry, logger) and
  returns its result, the updated manager and the extended trace. A rejected promise or
  a \<^verbatim>\<open>throw\<close> is the \<open>Inl\<close> of a sum. Every \<^verbatim>\<open>await\<close> is run to completion
  before the next statement, and a method call is not interleaved with the task another
  call has launched: the model is the sequential reading of the asynchronous code.
\<close>

subsection \<open>Errors\<close>

text \<open>\<^verbatim>\<open>codes\<close> of \<^verbatim>\<open>./errors.js\<close>: only the member the constructor uses.\<close>

datatype codes = ERR_INVALID_PARAMETERS

text \<open>
  \<^verbatim>\<open>new Error(message)\<close>, \<^verbatim>\<open>new CodeError(message, code)\<close>, and whatever a
  collaborator rejects with.
\<close>

datatype error = Error string | CodeError string codes | Rejected string

subsection \<open>Bound addresses\<close>

text \<open>
  A \<^verbatim>\<open>Multiaddr\<close> is an object of \<^verbatim>\<open>@multiformats/multiaddr\<close>. The manager
  only observes it through \<^verbatim>\<open>addr.toOptions()\<close>, \<^verbatim>\<open>addr.isThinWaistAddress()\<close>
  and \<^verbatim>\<open>isLoopback(addr)\<close>; a bound address is the record of these observations.
\<close>

record multiaddr =
  family :: nat
  host :: string
  port :: nat
  transport :: string
  isThinWaistAddress :: bool
  isLoopback :: bool

text \<open>
  The argument of \<^verbatim>\<open>fromNodeAddress({ family, address, port }, transport)\<close>; the
  multiaddr it builds is represented by what it is built from.
\<close>

record node_address =
  na_family :: nat
  na_address :: string
  na_port :: int
  na_transport :: string

definition fromNodeAddress :: "nat \<Rightarrow> string \<Rightarrow> int \<Rightarrow> string \<Rightarrow> node_address" where
  "fromNodeAddress fam addr prt tr =
     \<lparr>na_family = fam, na_address = addr, na_port = prt, na_transport = tr\<rparr>"

subsection \<open>The gateway client and the trace\<close>

datatype protocol = TCP | UDP

text \<open>The argument of \<^verbatim>\<open>upnpNat\<close>.\<close>

record upnp_options =
  uo_description :: string
  uo_ttl :: real
  uo_keepAlive :: bool
  uo_gateway :: "string option"

text \<open>The argument of \<^verbatim>\<open>client.map\<close>.\<close>

record map_request =
  publicPort :: int
  localPort :: nat
  mr_localAddress :: "string option"
  mr_protocol :: protocol

text \<open>A gateway client handle: the number of the \<^verbatim>\<open>upnpNat\<close> call that made it.\<close>

type_synonym handle = nat

datatype event =
    GetAddrs
  | UpnpNat upnp_options
  | ExternalIp handle
  | Map handle map_request
  | Close handle
  | AddObservedAddr node_address
  | LogOpening string int string nat
  | LogError error

type_synonym trace = "event list"

fun is_GetAddrs :: "event \<Rightarrow> bool" where
  "is_GetAddrs GetAddrs = True"
| "is_GetAddrs _ = False"

fun is_UpnpNat :: "event \<Rightarrow> bool" where
  "is_UpnpNat (UpnpNat _) = True"
| "is_UpnpNat _ = False"

fun is_ExternalIp :: "event \<Rightarrow> bool" where
  "is_ExternalIp (ExternalIp _) = True"
| "is_ExternalIp _ = False"

definition new_handle :: "trace \<Rightarrow> handle" where
  "new_handle w = length (filter is_UpnpNat w)"

subsection \<open>The environment\<close>

text \<open>
  What the manager imports or is given and does not define: the runtime flag
  \<^verbatim>\<open>isBrowser\<close>, the constants of \<^verbatim>\<open>./version.js\<close>, the transport manager's
  \<^verbatim>\<open>getAddrs()\<close>, \<^verbatim>\<open>isPrivateIp\<close> (\<open>None\<close> is \<^verbatim>\<open>undefined\<close>),
  \<^verbatim>\<open>Math.random()\<close>, and the outcome of each asynchronous call to the gateway
  (\<open>None\<close>: the promise resolves; \<open>Some e\<close>: it rejects with \<open>e\<close>). An outcome may
  depend on everything that happened before, so it is a function of the trace.
\<close>

record env =
  isBrowser :: bool
  pkg_name :: string
  pkg_version :: string
  getAddrs :: "trace \<Rightarrow> multiaddr list"
  isPrivateIp :: "string \<Rightarrow> bool option"
  random :: "trace \<Rightarrow> real"
  upnpNat :: "trace \<Rightarrow> error option"
  externalIp :: "trace \<Rightarrow> error + string"
  map_result :: "trace \<Rightarrow> error option"
  close_result :: "trace \<Rightarrow> error option"

subsection \<open>Numbers\<close>

text \<open>
  A JavaScript number is an IEEE 754 binary64 value, and every arithmetic operation
  returns the exact result rounded to the nearest such value, ties to even. The finite
  non-negative values are the multiples \<open>N / 2 ^ 1074\<close> in which the natural number
  \<open>N\<close> has at most 53 significant bits. \<open>round_sig\<close> rounds a non-negative real to
  the nearest natural number of at most 53 significant bits, and \<open>fl\<close> rounds a real to
  the nearest binary64 value. Overflow to \<^verbatim>\<open>Infinity\<close> is left out: the numbers of
  this program stay below \<open>2 ^ 17\<close>.
\<close>

definition round_ties_even :: "real \<Rightarrow> int" where
  "round_ties_even y =
     (let f = \<lfloor>y\<rfloor>; d = y - of_int f
      in if d < 1 / 2 then f else if 1 / 2 < d then f + 1 else if even f then f else f + 1)"

definition round_sig :: "real \<Rightarrow> real" where
  "round_sig X =
     (let j = nat (bitlen \<lfloor>X\<rfloor> - 53)
      in of_int (round_ties_even (X / 2 ^ j)) * 2 ^ j)"

definition fl :: "real \<Rightarrow> real" where
  "fl x = sgn x * (round_sig (\<bar>x\<bar> * 2 ^ 1074) / 2 ^ 1074)"

text \<open>The reals that are binary64 values.\<close>

definition is_double :: "real \<Rightarrow> bool" where
  "is_double x = (fl x = x)"

text \<open>
  \<^verbatim>\<open>Math.floor(Math.random() * (max - min + 1) + min)\<close>, on the random number \<open>r\<close>;
  each of the four operations rounds.
\<close>

definition highPort :: "real \<Rightarrow> int \<Rightarrow> int \<Rightarrow> int" where
  "highPort r mn mx =
     \<lfloor>fl (fl (r * fl (fl (of_int mx - of_int mn) + 1)) + of_int mn)\<rfloor>"

subsection \<open>The manager\<close>

text \<open>
  The ttl is a JavaScript number, here the real number it stands for; comparing two such
  numbers is exact. (\<^verbatim>\<open>NaN\<close>, which is neither below 7200 nor at least 7200, is
  left out.)
\<close>

definition DEFAULT_TTL :: real where
  "DEFAULT_TTL = 7200"

record NatManagerInit =
  init_enabled :: bool
  init_externalAddress :: "string option"
  init_localAddress :: "string option"
  init_description :: "string option"
  init_ttl :: "real option"
  init_keepAlive :: "bool option"
  init_gateway :: "string option"

record NatManager =
  peerId :: string
  enabled :: bool
  externalAddress :: "string option"
  localAddress :: "string option"
  description :: string
  ttl :: real
  keepAlive :: bool
  gateway :: "string option"
  started :: bool
  client :: "handle option"

text \<open>The constructor; \<open>pid\<close> is \<^verbatim>\<open>components.peerId.toString()\<close>.\<close>

definition NatManager_new :: "env \<Rightarrow> string \<Rightarrow> NatManagerInit \<Rightarrow> error + NatManager" where
  "NatManager_new e pid init =
     (let this = \<lparr>
        peerId = pid,
        enabled = init_enabled init,
        externalAddress = init_externalAddress init,
        localAddress = init_localAddress init,
        description = (case init_description init of
                         Some d \<Rightarrow> d
                       | None \<Rightarrow> pkg_name e @ ''@'' @ pkg_version e @ '' '' @ pid),
        ttl = (case init_ttl init of Some t \<Rightarrow> t | None \<Rightarrow> DEFAULT_TTL),
        keepAlive = (case init_keepAlive init of Some k \<Rightarrow> k | None \<Rightarrow> True),
        gateway = init_gateway init,
        started = False,
        client = None\<rparr>
      in if ttl this < DEFAULT_TTL
         then Inl (CodeError ''NatManager ttl should be at least 7200 seconds'' ERR_INVALID_PARAMETERS)
         else Inr this)"

definition isStarted :: "NatManager \<Rightarrow> bool" where
  "isStarted this = started this"

definition start :: "NatManager \<Rightarrow> trace \<Rightarrow> (error + unit) \<times> NatManager \<times> trace" where
  "start this w = (Inr (), this, w)"

definition getClient :: "env \<Rightarrow> NatManager \<Rightarrow> trace \<Rightarrow> (error + handle) \<times> NatManager \<times> trace" where
  "getClient e this w =
     (case client this of
        Some c \<Rightarrow> (Inr c, this, w)
      | None \<Rightarrow>
          (let w1 = w @ [UpnpNat \<lparr>uo_description = description this, uo_ttl = ttl this,
                                 uo_keepAlive = keepAlive this, uo_gateway = gateway this\<rparr>]
           in case upnpNat e w of
                Some err \<Rightarrow> (Inl err, this, w1)
              | None \<Rightarrow> (Inr (new_handle w), this\<lparr>client := Some (new_handle w)\<rparr>, w1)))"

text \<open>\<^verbatim>\<open>String.prototype.toUpperCase\<close> on the ASCII letters; other bytes are kept.\<close>

definition toUpperCase_char :: "char \<Rightarrow> char" where
  "toUpperCase_char c =
     (let n = (of_char c :: nat) in if 97 \<le> n \<and> n \<le> 122 then char_of (n - 32) else c)"

definition toUpperCase :: "string \<Rightarrow> string" where
  "toUpperCase s = map toUpperCase_char s"

text \<open>\<^verbatim>\<open>this.externalAddress ?? await client.externalIp()\<close>\<close>

definition publicIp_of :: "env \<Rightarrow> NatManager \<Rightarrow> handle \<Rightarrow> trace \<Rightarrow> (error + string) \<times> trace" where
  "publicIp_of e this c w =
     (case externalAddress this of
        Some a \<Rightarrow> (Inr a, w)
      | None \<Rightarrow> (externalIp e w, w @ [ExternalIp c]))"

text \<open>
  The body of the loop of \<^verbatim>\<open>_start\<close> for an address that has passed the three
  \<^verbatim>\<open>continue\<close> tests: the statements from \<^verbatim>\<open>await this._getClient()\<close> to
  \<^verbatim>\<open>addObservedAddr\<close>.
\<close>

definition map_addr :: "env \<Rightarrow> multiaddr \<Rightarrow> NatManager \<Rightarrow> trace \<Rightarrow> (error + unit) \<times> NatManager \<times> trace" where
  "map_addr e addr this w =
     (case getClient e this w of
        (Inl err, this1, w1) \<Rightarrow> (Inl err, this1, w1)
      | (Inr c, this1, w1) \<Rightarrow>
          (case publicIp_of e this1 c w1 of
             (Inl err, w2) \<Rightarrow> (Inl err, this1, w2)
           | (Inr publicIp, w2) \<Rightarrow>
               (let isPrivate = isPrivateIp e publicIp in
                if isPrivate = Some True then
                  (Inl (Error (publicIp @ '' is private - please set config.nat.externalIp to an externally routable IP or ensure you are not behind a double NAT'')), this1, w2)
                else if isPrivate = None then
                  (Inl (Error (publicIp @ '' is not an IP address'')), this1, w2)
                else
                  (let pubPort = highPort (random e w2) 1024 65535;
                       w3 = w2 @ [LogOpening publicIp pubPort (host addr) (port addr)];
                       w4 = w3 @ [Map c \<lparr>publicPort = pubPort,
                                          localPort = port addr,
                                          mr_localAddress = localAddress this1,
                                          mr_protocol = (if toUpperCase (transport addr) = ''TCP'' then TCP else UDP)\<rparr>]
                   in case map_result e w3 of
                        Some err \<Rightarrow> (Inl err, this1, w4)
                      | None \<Rightarrow>
                          (Inr (), this1,
                           w4 @ [AddObservedAddr (fromNodeAddress 4 publicIp pubPort (transport addr))])))))"

text \<open>The loop of \<^verbatim>\<open>_start\<close> over the addresses still to visit.\<close>

fun start_loop :: "env \<Rightarrow> multiaddr list \<Rightarrow> NatManager \<Rightarrow> trace \<Rightarrow> (error + unit) \<times> NatManager \<times> trace" where
  "start_loop e [] this w = (Inr (), this, w)"
| "start_loop e (addr # addrs) this w =
     (if \<not> isThinWaistAddress addr \<or> transport addr \<noteq> ''tcp'' then start_loop e addrs this w
      else if isLoopback addr then start_loop e addrs this w
      else if family addr \<noteq> 4 then start_loop e addrs this w
      else
        case map_addr e addr this w of
          (Inl err, this1, w1) \<Rightarrow> (Inl err, this1, w1)
        | (Inr u, this1, w1) \<Rightarrow> start_loop e addrs this1 w1)"

text \<open>\<^verbatim>\<open>_start\<close>: the loop over \<^verbatim>\<open>transportManager.getAddrs()\<close>.\<close>

definition start_task :: "env \<Rightarrow> NatManager \<Rightarrow> trace \<Rightarrow> (error + unit) \<times> NatManager \<times> trace" where
  "start_task e this w = start_loop e (getAddrs e w) this (w @ [GetAddrs])"

text \<open>
  \<^verbatim>\<open>afterStart\<close>: the task it launches is run here to its end, and the handler of
  \<^verbatim>\<open>.catch\<close> logs what it rejects with.
\<close>

definition afterStart :: "env \<Rightarrow> NatManager \<Rightarrow> trace \<Rightarrow> (error + unit) \<times> NatManager \<times> trace" where
  "afterStart e this w =
     (if isBrowser e \<or> \<not> enabled this \<or> started this then (Inr (), this, w)
      else
        (let this1 = this\<lparr>started := True\<rparr>
         in case start_task e this1 w of
              (Inl err, this2, w2) \<Rightarrow> (Inr (), this2, w2 @ [LogError err])
            | (Inr u, this2, w2) \<Rightarrow> (Inr (), this2, w2)))"

definition stop :: "env \<Rightarrow> NatManager \<Rightarrow> trace \<Rightarrow> (error + unit) \<times> NatManager \<times> trace" where
  "stop e this w =
     (if isBrowser e then (Inr (), this, w)
      else
        case client this of
          None \<Rightarrow> (Inr (), this, w)
        | Some c \<Rightarrow>
            (case close_result e w of
               None \<Rightarrow> (Inr (), this\<lparr>client := None\<rparr>, w @ [Close c])
             | Some err \<Rightarrow> (Inr (), this, w @ [Close c, LogError err])))"

subsection \<open>Vocabulary of the specification\<close>

text \<open>
  The eligibility filter in the words of the specification: thin-waist, transport
  exactly TCP, not loopback, family IPv4.
\<close>

definition eligible :: "multiaddr \<Rightarrow> bool" where
  "eligible a = (isThinWaistAddress a \<and> transport a = ''tcp'' \<and> \<not> isLoopback a \<and> family a = 4)"

text \<open>The effective ttl: \<^verbatim>\<open>init.ttl ?? DEFAULT_TTL\<close>.\<close>

definition effective_ttl :: "NatManagerInit \<Rightarrow> real" where
  "effective_ttl init = (case init_ttl init of Some t \<Rightarrow> t | None \<Rightarrow> 7200)"

text \<open>The mapping requests sent to the gateway client, in order.\<close>

fun map_requests :: "trace \<Rightarrow> map_request list" where
  "map_requests [] = []"
| "map_requests (Map c r # evs) = r # map_requests evs"
| "map_requests (ev # evs) = map_requests evs"

text \<open>The observed addresses given to the address registry, in order.\<close>

fun observed_addrs :: "trace \<Rightarrow> node_address list" where
  "observed_addrs [] = []"
| "observed_addrs (AddObservedAddr a # evs) = a # observed_addrs evs"
| "observed_addrs (ev # evs) = observed_addrs evs"

text \<open>The handles on which the gateway client was called, in order.\<close>

fun used_handles :: "trace \<Rightarrow> handle list" where
  "used_handles [] = []"
| "used_handles (ExternalIp c # evs) = c # used_handles evs"
| "used_handles (Map c r # evs) = c # used_handles evs"
| "used_handles (Close c # evs) = c # used_handles evs"
| "used_handles (ev # evs) = used_handles evs"

text \<open>
  The host drives the manager through the \<^verbatim>\<open>Startable\<close> interface: any sequence of
  calls of \<^verbatim>\<open>start\<close>, \<^verbatim>\<open>afterStart\<close> and \<^verbatim>\<open>stop\<close>.
\<close>

datatype call = Call_start | Call_afterStart | Call_stop

fun call_step :: "env \<Rightarrow> call \<Rightarrow> NatManager \<times> trace \<Rightarrow> NatManager \<times> trace" where
  "call_step e Call_start (this, w) = snd (start this w)"
| "call_step e Call_afterStart (this, w) = snd (afterStart e this w)"
| "call_step e Call_stop (this, w) = snd (stop e this w)"

fun lifecycle :: "env \<Rightarrow> call list \<Rightarrow> NatManager \<times> trace \<Rightarrow> NatManager \<times> trace" where
  "lifecycle e [] s = s"
| "lifecycle e (c # cs) s = lifecycle e cs (call_step e c s)"

subsection \<open>Example inputs\<close>

text \<open>
  A host bound to a LAN address, the loopback address, an IPv6 address, a UDP port and a
  websocket address, behind a gateway whose public address is 203.0.113.7.
\<close>

definition addr_lan :: multiaddr where
  "addr_lan = \<lparr>family = 4, host = ''192.168.1.10'', port = 4001, transport = ''tcp'',
               isThinWaistAddress = True, isLoopback = False\<rparr>"

definition addr_lan2 :: multiaddr where
  "addr_lan2 = \<lparr>family = 4, host = ''192.168.1.10'', port = 4002, transport = ''tcp'',
                isThinWaistAddress = True, isLoopback = False\<rparr>"

definition addr_loopback :: multiaddr where
  "addr_loopback = \<lparr>family = 4, host = ''127.0.0.1'', port = 4001, transport = ''tcp'',
                    isThinWaistAddress = True, isLoopback = True\<rparr>"

definition addr_ip6 :: multiaddr where
  "addr_ip6 = \<lparr>family = 6, host = ''2001:db8::10'', port = 4001, transport = ''tcp'',
               isThinWaistAddress = True, isLoopback = False\<rparr>"

definition addr_udp :: multiaddr where
  "addr_udp = \<lparr>family = 4, host = ''192.168.1.10'', port = 4001, transport = ''udp'',
               isThinWaistAddress = True, isLoopback = False\<rparr>"

definition addr_ws :: multiaddr where
  "addr_ws = \<lparr>family = 4, host = ''192.168.1.10'', port = 4003, transport = ''tcp'',
              isThinWaistAddress = False, isLoopback = False\<rparr>"

definition isPrivateIp_ex :: "string \<Rightarrow> bool option" where
  "isPrivateIp_ex s =
     (if s = ''203.0.113.7'' then Some False
      else if s = ''10.0.0.5'' then Some True
      else None)"

definition env_ex :: env where
  "env_ex = \<lparr>isBrowser = False, pkg_name = ''libp2p'', pkg_version = ''0.40.0'',
             getAddrs = (\<lambda>w. [addr_loopback, addr_lan, addr_ip6]),
             isPrivateIp = isPrivateIp_ex,
             random = (\<lambda>w. 1 / 2),
             upnpNat = (\<lambda>w. None),
             externalIp = (\<lambda>w. Inr ''203.0.113.7''),
             map_result = (\<lambda>w. None),
             close_result = (\<lambda>w. None)\<rparr>"

text \<open>The same host behind a second NAT: the gateway reports a private address.\<close>

definition env_double_nat :: env where
  "env_double_nat = env_ex\<lparr>externalIp := (\<lambda>w. Inr ''10.0.0.5'')\<rparr>"

text \<open>The same host in a browser.\<close>

definition env_browser :: env where
  "env_browser = env_ex\<lparr>isBrowser := True\<rparr>"

text \<open>A gateway client whose \<^verbatim>\<open>close\<close> rejects.\<close>

definition env_close_fails :: env where
  "env_close_fails = env_ex\<lparr>close_result := (\<lambda>w. Some (Rejected ''socket closed''))\<rparr>"

definition init_ex :: NatManagerInit where
  "init_ex = \<lparr>init_enabled = True, init_externalAddress = None, init_localAddress = None,
              init_description = None, init_ttl = None, init_keepAlive = None,
              init_gateway = None\<rparr>"

text \<open>The manager that \<^verbatim>\<open>new NatManager(components, init_ex)\<close> makes.\<close>

definition manager_ex :: NatManager where
  "manager_ex = \<lparr>peerId = ''QmPeer'', enabled = True, externalAddress = None,
                 localAddress = None, description = ''libp2p@0.40.0 QmPeer'', ttl = 7200,
                 keepAlive = True, gateway = None, started = False, client = None\<rparr>"

text \<open>The same configuration with the public address given by the operator.\<close>

definition init_override :: NatManagerInit where
  "init_override = init_ex\<lparr>init_externalAddress := Some ''203.0.113.7''\<rparr>"

definition manager_override :: NatManager where
  "manager_override = manager_ex\<lparr>externalAddress := Some ''203.0.113.7''\<rparr>"

text \<open>
  The manager and the trace after \<^verbatim>\<open>afterStart\<close> on \<open>manager_ex\<close> in \<open>env_ex\<close>:
  one client made, the public IP asked once, the LAN address mapped to port 33280.
\<close>

definition running_ex :: NatManager where
  "running_ex = manager_ex\<lparr>started := True, client := Some 0\<rparr>"

definition trace_ex :: trace where
  "trace_ex =
     [GetAddrs,
      UpnpNat \<lparr>uo_description = ''libp2p@0.40.0 QmPeer'', uo_ttl = 7200,
               uo_keepAlive = True, uo_gateway = None\<rparr>,
      ExternalIp 0,
      LogOpening ''203.0.113.7'' 33280 ''192.168.1.10'' 4001,
      Map 0 \<lparr>publicPort = 33280, localPort = 4001, mr_localAddress = None, mr_protocol = TCP\<rparr>,
      AddObservedAddr \<lparr>na_family = 4, na_address = ''203.0.113.7'', na_port = 33280,
                       na_transport = ''tcp''\<rparr>]"

section \<open>Properties\<close>

subsection \<open>Rounding and the port chooser\<close>

lemma round_ties_even_of_int [simp]: "round_ties_even (of_int n) = n"
  by (simp add: round_ties_even_def)

lemma round_ties_even_numeral [simp]: "round_ties_even (numeral n) = numeral n"
  using round_ties_even_of_int[of "numeral n"] by simp

lemma round_ties_even_mono: "y \<le> z \<Longrightarrow> round_ties_even y \<le> round_ties_even z"
proof -
  assume yz: "y \<le> z"
  then have fl: "\<lfloor>y\<rfloor> \<le> \<lfloor>z\<rfloor>" by (rule floor_mono)
  show ?thesis
  proof (cases "\<lfloor>y\<rfloor> = \<lfloor>z\<rfloor>")
    case True
    with yz show ?thesis by (auto simp: round_ties_even_def Let_def)
  next
    case False
    with fl have "\<lfloor>y\<rfloor> + 1 \<le> \<lfloor>z\<rfloor>" by simp
    moreover have "round_ties_even y \<le> \<lfloor>y\<rfloor> + 1" by (simp add: round_ties_even_def Let_def)
    moreover have "\<lfloor>z\<rfloor> \<le> round_ties_even z" by (simp add: round_ties_even_def Let_def)
    ultimately show ?thesis by linarith
  qed
qed

lemma round_ties_even_le: "y \<le> of_int n \<Longrightarrow> round_ties_even y \<le> n"
  using round_ties_even_mono[of y "of_int n"] by simp

lemma round_ties_even_ge: "of_int n \<le> y \<Longrightarrow> n \<le> round_ties_even y"
  using round_ties_even_mono[of "of_int n" y] by simp

lemma bitlen_floor_eq:
  assumes "2 ^ (p - 1) \<le> X" "X < 2 ^ p" "0 < p"
  shows "bitlen \<lfloor>X\<rfloor> = int p"
proof (rule antisym)
  have "\<lfloor>X\<rfloor> < 2 ^ p" using assms(2) by (simp add: floor_less_iff)
  then show "bitlen \<lfloor>X\<rfloor> \<le> int p" by (simp add: bitlen_le_iff_power)
next
  have "(2::int) ^ (p - 1) \<le> \<lfloor>X\<rfloor>" using assms(1) by (simp add: le_floor_iff)
  then show "int p \<le> bitlen \<lfloor>X\<rfloor>" using assms(3) by (simp add: bitlen_ge_iff_power)
qed

lemma round_sig_binade:
  assumes "2 ^ (p - 1) \<le> X" "X < 2 ^ p" "53 \<le> p"
  shows "round_sig X = of_int (round_ties_even (X / 2 ^ (p - 53))) * 2 ^ (p - 53)"
proof -
  have "bitlen \<lfloor>X\<rfloor> = int p" using assms by (intro bitlen_floor_eq) auto
  then have "nat (bitlen \<lfloor>X\<rfloor> - 53) = p - 53" by simp
  then show ?thesis by (simp add: round_sig_def Let_def)
qed

lemma round_sig_nonneg: "0 \<le> X \<Longrightarrow> 0 \<le> round_sig X"
  using round_ties_even_ge[of 0 "X / 2 ^ nat (bitlen \<lfloor>X\<rfloor> - 53)"]
  by (simp add: round_sig_def Let_def)

lemma round_sig_le_pow:
  assumes "0 \<le> X" "X \<le> 2 ^ q"
  shows "round_sig X \<le> 2 ^ q"
proof -
  define j where "j = nat (bitlen \<lfloor>X\<rfloor> - 53)"
  have "\<lfloor>X\<rfloor> \<le> 2 ^ q" using assms(2) by (metis floor_mono floor_numeral_power)
  also have "(2::int) ^ q < 2 ^ (q + 1)" by simp
  finally have "\<lfloor>X\<rfloor> < 2 ^ nat (int (q + 1))" by (simp only: nat_int)
  then have "bitlen \<lfloor>X\<rfloor> \<le> int (q + 1)" by (simp only: bitlen_le_iff_power) simp
  then have jq: "j \<le> q" unfolding j_def by linarith
  have "X / 2 ^ j \<le> 2 ^ q / 2 ^ j" using assms(2) by (simp add: divide_right_mono)
  also have "\<dots> = of_int (2 ^ (q - j))"
    using jq power_add[of "2::real" "q - j" j] by simp
  finally have "round_ties_even (X / 2 ^ j) \<le> 2 ^ (q - j)" by (rule round_ties_even_le)
  then have "of_int (round_ties_even (X / 2 ^ j)) \<le> (2::real) ^ (q - j)"
    by (metis of_int_le_iff of_int_numeral of_int_power)
  then have "of_int (round_ties_even (X / 2 ^ j)) * 2 ^ j \<le> (2::real) ^ (q - j) * 2 ^ j"
    by (intro mult_right_mono) simp_all
  also have "\<dots> = 2 ^ q" using jq by (simp add: power_add[symmetric])
  finally show ?thesis unfolding round_sig_def Let_def j_def .
qed

lemma round_sig_ge_pow:
  assumes "2 ^ q \<le> X"
  shows "2 ^ q \<le> round_sig X"
proof -
  define b where "b = bitlen \<lfloor>X\<rfloor>"
  define j where "j = nat (b - 53)"
  have n: "(2::int) ^ q \<le> \<lfloor>X\<rfloor>" using assms by (simp add: le_floor_iff)
  then have npos: "0 < \<lfloor>X\<rfloor>" by (smt (verit) zero_less_power)
  show ?thesis
  proof (cases "j \<le> q")
    case True
    have "of_int (2 ^ (q - j)) = (2::real) ^ q / 2 ^ j"
      using True power_add[of "2::real" "q - j" j] by simp
    also have "\<dots> \<le> X / 2 ^ j" using assms by (simp add: divide_right_mono)
    finally have "2 ^ (q - j) \<le> round_ties_even (X / 2 ^ j)" by (rule round_ties_even_ge)
    then have "(2::real) ^ (q - j) \<le> of_int (round_ties_even (X / 2 ^ j))"
      by (metis of_int_le_iff of_int_numeral of_int_power)
    then have "(2::real) ^ (q - j) * 2 ^ j \<le> of_int (round_ties_even (X / 2 ^ j)) * 2 ^ j"
      by (intro mult_right_mono) simp_all
    moreover have "(2::real) ^ (q - j) * 2 ^ j = 2 ^ q" using True by (simp add: power_add[symmetric])
    ultimately have "(2::real) ^ q \<le> of_int (round_ties_even (X / 2 ^ j)) * 2 ^ j" by simp
    then show ?thesis unfolding round_sig_def Let_def j_def b_def .
  next
    case False
    then have jpos: "0 < j" and b53: "b = int j + 53" by (auto simp: j_def)
    from bitlen_bounds[OF npos] have "(2::int) ^ nat (b - 1) \<le> \<lfloor>X\<rfloor>" by (simp add: b_def)
    then have "(2::real) ^ nat (b - 1) \<le> X"
      by (metis le_floor_iff of_int_numeral of_int_power)
    moreover have "nat (b - 1) = 52 + j" using b53 by simp
    ultimately have "(2::real) ^ (52 + j) \<le> X" by simp
    then have "(2::real) ^ (52 + j) / 2 ^ j \<le> X / 2 ^ j" by (simp add: divide_right_mono)
    then have "of_int (2 ^ 52) \<le> X / 2 ^ j" by (simp add: power_add)
    then have "2 ^ 52 \<le> round_ties_even (X / 2 ^ j)" by (rule round_ties_even_ge)
    then have "1 \<le> round_ties_even (X / 2 ^ j)" by simp
    then have "(1::real) \<le> of_int (round_ties_even (X / 2 ^ j))" by simp
    then have one: "(1::real) * 2 ^ j \<le> of_int (round_ties_even (X / 2 ^ j)) * 2 ^ j"
      by (intro mult_right_mono) simp_all
    have "(2::real) ^ q \<le> 2 ^ j" using False by (simp add: power_increasing)
    also have "\<dots> = 1 * 2 ^ j" by simp
    also note one
    finally show ?thesis unfolding round_sig_def Let_def j_def b_def .
  qed
qed

lemma fl_nonneg_eq: "0 \<le> x \<Longrightarrow> fl x = round_sig (x * 2 ^ 1074) / 2 ^ 1074"
  by (cases "x = 0") (simp_all add: fl_def round_sig_def round_ties_even_def)

lemma fl_nonneg: "0 \<le> x \<Longrightarrow> 0 \<le> fl x"
  using round_sig_nonneg[of "x * 2 ^ 1074"] by (simp add: fl_nonneg_eq)

lemma fl_le_pow:
  assumes "0 \<le> x" "x \<le> 2 ^ k"
  shows "fl x \<le> 2 ^ k"
proof -
  have "x * 2 ^ 1074 \<le> 2 ^ k * 2 ^ 1074" using assms(2) by (intro mult_right_mono) simp_all
  then have "x * 2 ^ 1074 \<le> 2 ^ (k + 1074)" by (simp only: power_add)
  moreover have "0 \<le> x * 2 ^ 1074" using assms(1) by simp
  ultimately have "round_sig (x * 2 ^ 1074) \<le> 2 ^ (k + 1074)" by (intro round_sig_le_pow)
  then have "round_sig (x * 2 ^ 1074) / 2 ^ 1074 \<le> 2 ^ (k + 1074) / 2 ^ 1074"
    by (intro divide_right_mono) simp_all
  also have "(2::real) ^ (k + 1074) / 2 ^ 1074 = 2 ^ k" by (simp only: power_add) simp
  finally show ?thesis using assms(1) by (simp only: fl_nonneg_eq)
qed

lemma fl_ge_pow:
  assumes "2 ^ k \<le> x"
  shows "2 ^ k \<le> fl x"
proof -
  have x0: "0 \<le> x" using assms by (smt (verit) zero_le_power)
  have "2 ^ k * 2 ^ 1074 \<le> x * 2 ^ 1074" using assms by (intro mult_right_mono) simp_all
  then have "2 ^ (k + 1074) \<le> x * 2 ^ 1074" by (simp only: power_add)
  then have "2 ^ (k + 1074) \<le> round_sig (x * 2 ^ 1074)" by (intro round_sig_ge_pow)
  then have "2 ^ (k + 1074) / 2 ^ 1074 \<le> round_sig (x * 2 ^ 1074) / 2 ^ 1074"
    by (intro divide_right_mono) simp_all
  moreover have "(2::real) ^ (k + 1074) / 2 ^ 1074 = 2 ^ k" by (simp only: power_add) simp
  ultimately show ?thesis using x0 by (simp only: fl_nonneg_eq)
qed

lemma fl_binade:
  assumes "2 ^ k \<le> x" "x < 2 ^ (k + 1)" "k \<le> 52"
  shows "fl x = of_int (round_ties_even (x * 2 ^ (52 - k))) / 2 ^ (52 - k)"
proof -
  have x0: "0 \<le> x" using assms(1) by (smt (verit) zero_le_power)
  define p where "p = k + 1075"
  have p1: "p - 1 = k + 1074" and p53: "p - 53 = k + 1022" and pk: "p = (k + 1) + 1074"
    by (simp_all add: p_def)
  have "2 ^ k * 2 ^ 1074 \<le> x * 2 ^ 1074" using assms(1) by (intro mult_right_mono) simp_all
  then have lo: "2 ^ (p - 1) \<le> x * 2 ^ 1074" by (simp only: p1 power_add)
  have "x * 2 ^ 1074 < 2 ^ (k + 1) * 2 ^ 1074" using assms(2) by (intro mult_strict_right_mono) simp_all
  then have hi: "x * 2 ^ 1074 < 2 ^ p" by (simp only: pk power_add)
  have "53 \<le> p" by (simp add: p_def)
  from round_sig_binade[OF lo hi this]
  have rs: "round_sig (x * 2 ^ 1074) =
      of_int (round_ties_even (x * 2 ^ 1074 / 2 ^ (k + 1022))) * 2 ^ (k + 1022)"
    by (simp only: p53)
  have split: "(2::real) ^ 1074 = 2 ^ (52 - k) * 2 ^ (k + 1022)"
    using assms(3) by (simp only: power_add[symmetric]) simp
  have arg: "x * 2 ^ 1074 / 2 ^ (k + 1022) = x * 2 ^ (52 - k)"
    by (simp only: split) simp
  have "fl x = of_int (round_ties_even (x * 2 ^ (52 - k))) * 2 ^ (k + 1022) / 2 ^ 1074"
    using x0 by (simp only: fl_nonneg_eq rs arg)
  also have "\<dots> = of_int (round_ties_even (x * 2 ^ (52 - k))) / 2 ^ (52 - k)"
    by (simp only: split) simp
  finally show ?thesis .
qed

lemma fl_below_one:
  assumes "1 / 2 \<le> x" "x < 1"
  shows "fl x = of_int (round_ties_even (x * 2 ^ 53)) / 2 ^ 53"
proof -
  have x0: "0 \<le> x" using assms(1) by simp
  have half: "(2::real) ^ 1074 = 2 * 2 ^ 1073" by (simp only: power_Suc[symmetric]) simp
  have "1 / 2 * (2 * 2 ^ 1073) \<le> x * (2 * 2 ^ 1073)" using assms(1) by (intro mult_right_mono) simp_all
  then have lo: "2 ^ (1074 - 1) \<le> x * 2 ^ 1074" by (simp only: half) simp
  have "x * 2 ^ 1074 < 1 * 2 ^ 1074" using assms(2) by (intro mult_strict_right_mono) simp_all
  then have hi: "x * 2 ^ 1074 < 2 ^ 1074" by simp
  from round_sig_binade[OF lo hi]
  have rs: "round_sig (x * 2 ^ 1074) =
      of_int (round_ties_even (x * 2 ^ 1074 / 2 ^ 1021)) * 2 ^ 1021"
    by simp
  have split: "(2::real) ^ 1074 = 2 ^ 53 * 2 ^ 1021"
    by (simp only: power_add[symmetric]) simp
  have arg: "x * 2 ^ 1074 / 2 ^ 1021 = x * 2 ^ 53"
    by (simp only: split) simp
  have "fl x = of_int (round_ties_even (x * 2 ^ 53)) * 2 ^ 1021 / 2 ^ 1074"
    using x0 by (simp only: fl_nonneg_eq rs arg)
  also have "\<dots> = of_int (round_ties_even (x * 2 ^ 53)) / 2 ^ 53"
    by (simp only: split) simp
  finally show ?thesis .
qed

lemma double_below_one:
  assumes "is_double r" "r < 1"
  shows "r \<le> 1 - 1 / 2 ^ 53"
proof (cases "r < 1 / 2")
  case True
  then show ?thesis by simp
next
  case False
  then have "1 / 2 \<le> r" by simp
  from fl_below_one[OF this assms(2)] assms(1)
  have r: "r = of_int (round_ties_even (r * 2 ^ 53)) / 2 ^ 53" by (simp add: is_double_def)
  define n where "n = round_ties_even (r * 2 ^ 53)"
  from r have rn: "r = of_int n / 2 ^ 53" by (simp add: n_def)
  with assms(2) have "of_int n < (2::real) ^ 53" by (simp add: divide_less_eq)
  then have "n < 2 ^ 53" by simp
  then have "n \<le> 2 ^ 53 - 1" by simp
  then have "(of_int n :: real) \<le> of_int (2 ^ 53 - 1)" by (simp only: of_int_le_iff)
  then have "(of_int n :: real) \<le> 2 ^ 53 - 1" by simp
  then have "of_int n / 2 ^ 53 \<le> ((2::real) ^ 53 - 1) / 2 ^ 53" by (intro divide_right_mono) simp_all
  with rn show ?thesis by (simp add: diff_divide_distrib)
qed

lemma fl_int_15:
  assumes "2 ^ 15 \<le> n" "n < 2 ^ 16"
  shows "fl (of_int n) = of_int n"
proof -
  have a: "(2::real) ^ 15 \<le> of_int n" using assms(1) by simp
  have b: "of_int n < (2::real) ^ (15 + 1)" using assms(2) by simp
  have "of_int n * (2::real) ^ (52 - 15) = of_int (n * 2 ^ 37)" by simp
  with fl_binade[OF a b] show ?thesis by (simp only: round_ties_even_of_int) simp
qed

lemma fl_product_bound:
  assumes "0 \<le> y" "y \<le> 64512 * (1 - 1 / 2 ^ 53)"
  shows "0 \<le> fl y \<and> fl y \<le> 64512 - 1 / 2 ^ 37"
proof
  show "0 \<le> fl y" using assms(1) by (rule fl_nonneg)
  show "fl y \<le> 64512 - 1 / 2 ^ 37"
  proof (cases "y < 2 ^ 15")
    case True
    with assms(1) have "fl y \<le> 2 ^ 15" by (intro fl_le_pow) simp_all
    then show ?thesis by simp
  next
    case False
    then have lo: "2 ^ 15 \<le> y" by simp
    have hi: "y < 2 ^ (15 + 1)" using assms(2) by simp
    from fl_binade[OF lo hi] have eq: "fl y = of_int (round_ties_even (y * 2 ^ 37)) / 2 ^ 37"
      by simp
    have "y * 2 ^ 37 \<le> 64512 * (1 - 1 / 2 ^ 53) * 2 ^ 37"
      using assms(2) by (intro mult_right_mono) simp_all
    then have "round_ties_even (y * 2 ^ 37) \<le> round_ties_even (64512 * (1 - 1 / 2 ^ 53) * 2 ^ 37)"
      by (rule round_ties_even_mono)
    also have "round_ties_even (64512 * (1 - 1 / 2 ^ 53) * 2 ^ 37) = 64512 * 2 ^ 37 - 1"
      by (simp add: round_ties_even_def Let_def)
    finally have "(of_int (round_ties_even (y * 2 ^ 37)) :: real) \<le> of_int (64512 * 2 ^ 37 - 1)"
      by (simp only: of_int_le_iff)
    then have "of_int (round_ties_even (y * 2 ^ 37)) / 2 ^ 37 \<le> (of_int (64512 * 2 ^ 37 - 1) :: real) / 2 ^ 37"
      by (intro divide_right_mono) simp_all
    with eq show ?thesis by simp
  qed
qed

lemma fl_sum_bound:
  assumes "1024 \<le> z" "z \<le> 65536 - 1 / 2 ^ 37"
  shows "1024 \<le> fl z \<and> fl z \<le> 65536 - 1 / 2 ^ 37"
proof
  have "2 ^ 10 \<le> fl z" using assms(1) by (intro fl_ge_pow) simp
  then show "1024 \<le> fl z" by simp
  show "fl z \<le> 65536 - 1 / 2 ^ 37"
  proof (cases "z < 2 ^ 15")
    case True
    with assms(1) have "fl z \<le> 2 ^ 15" by (intro fl_le_pow) simp_all
    then show ?thesis by simp
  next
    case False
    then have lo: "2 ^ 15 \<le> z" by simp
    have hi: "z < 2 ^ (15 + 1)" using assms(2) by simp
    from fl_binade[OF lo hi] have eq: "fl z = of_int (round_ties_even (z * 2 ^ 37)) / 2 ^ 37"
      by simp
    have "z * 2 ^ 37 \<le> (65536 - 1 / 2 ^ 37) * 2 ^ 37"
      using assms(2) by (intro mult_right_mono) simp_all
    also have "\<dots> = of_int (2 ^ 53 - 1)" by simp
    finally have "round_ties_even (z * 2 ^ 37) \<le> 2 ^ 53 - 1" by (rule round_ties_even_le)
    then have "(of_int (round_ties_even (z * 2 ^ 37)) :: real) \<le> of_int (2 ^ 53 - 1)"
      by (simp only: of_int_le_iff)
    then have "of_int (round_ties_even (z * 2 ^ 37)) / 2 ^ 37 \<le> (of_int (2 ^ 53 - 1) :: real) / 2 ^ 37"
      by (intro divide_right_mono) simp_all
    with eq show ?thesis by simp
  qed
qed

lemma highPort_width: "fl (fl (of_int 65535 - of_int 1024) + 1) = 64512"
proof -
  have "fl (of_int 64511) = of_int 64511" by (rule fl_int_15) simp_all
  moreover have "fl (of_int 64512) = of_int 64512" by (rule fl_int_15) simp_all
  ultimately show ?thesis by simp
qed

lemma highPort_range:
  assumes "is_double r" "0 \<le> r" "r < 1"
  shows "1024 \<le> highPort r 1024 65535 \<and> highPort r 1024 65535 \<le> 65535"
proof -
  define y where "y = fl (r * 64512)"
  define z where "z = fl (y + 1024)"
  have hp: "highPort r 1024 65535 = \<lfloor>z\<rfloor>"
    by (simp only: highPort_def highPort_width y_def z_def) simp
  from double_below_one[OF assms(1,3)] have "r * 64512 \<le> (1 - 1 / 2 ^ 53) * 64512"
    by (intro mult_right_mono) simp_all
  then have "r * 64512 \<le> 64512 * (1 - 1 / 2 ^ 53)" by (simp only: mult.commute)
  moreover have "0 \<le> r * 64512" using assms(2) by simp
  ultimately have y: "0 \<le> y \<and> y \<le> 64512 - 1 / 2 ^ 37"
    unfolding y_def by (intro fl_product_bound)
  then have "1024 \<le> y + 1024" "y + 1024 \<le> 65536 - 1 / 2 ^ 37" by simp_all
  then have z: "1024 \<le> z \<and> z \<le> 65536 - 1 / 2 ^ 37"
    unfolding z_def by (intro fl_sum_bound)
  then have "1024 \<le> \<lfloor>z\<rfloor>" by (simp add: le_floor_iff)
  moreover from z have "z < 65536" by simp
  then have "\<lfloor>z\<rfloor> < 65536" by (simp add: floor_less_iff)
  ultimately show ?thesis by (simp add: hp)
qed

lemma is_double_half: "is_double (1 / 2)"
  using fl_below_one[of "1 / 2"] by (simp add: is_double_def)

lemma highPort_half: "highPort (1 / 2) 1024 65535 = 33280"
proof -
  have a: "fl (of_int 33280) = of_int 33280" by (rule fl_int_15) simp_all
  have "fl 32256 = of_int (round_ties_even (32256 * 2 ^ (52 - 14))) / 2 ^ (52 - 14)"
    by (rule fl_binade) simp_all
  then have b: "fl 32256 = 32256" by simp
  show ?thesis
    using a by (simp only: highPort_def highPort_width) (simp add: b)
qed

text \<open>
  That the random number is a binary64 value matters: for the real number
  \<open>1 - 1 / 2 ^ 60\<close>, which lies in [0, 1) and is not one, the product rounds up to
  64512 and the chooser would return 65536.
\<close>

lemma highPort_real_beyond_doubles: "highPort (1 - 1 / 2 ^ 60) 1024 65535 = 65536"
proof -
  have "fl ((1 - 1 / 2 ^ 60) * 64512) =
      of_int (round_ties_even ((1 - 1 / 2 ^ 60) * 64512 * 2 ^ (52 - 15))) / 2 ^ (52 - 15)"
    by (rule fl_binade) simp_all
  also have "round_ties_even ((1 - 1 / 2 ^ 60) * 64512 * 2 ^ (52 - 15)) = 64512 * 2 ^ 37"
    by (simp add: round_ties_even_def Let_def)
  finally have y: "fl ((1 - 1 / 2 ^ 60) * 64512) = 64512" by simp
  have "fl 65536 = of_int (round_ties_even (65536 * 2 ^ (52 - 16))) / 2 ^ (52 - 16)"
    by (rule fl_binade) simp_all
  then have z: "fl 65536 = 65536" by simp
  have "highPort r 1024 65535 = \<lfloor>fl (fl (r * 64512) + 1024)\<rfloor>" for r
    by (simp only: highPort_def highPort_width) simp
  then show ?thesis by (simp only: y) (simp add: z)
qed

subsection \<open>The loop and its trace\<close>

lemma toUpperCase_tcp: "toUpperCase ''tcp'' = ''TCP''"
  by code_simp

lemma map_requests_append: "map_requests (xs @ ys) = map_requests xs @ map_requests ys"
  by (induction xs rule: map_requests.induct) auto

lemma observed_addrs_append: "observed_addrs (xs @ ys) = observed_addrs xs @ observed_addrs ys"
  by (induction xs rule: observed_addrs.induct) auto

lemma used_handles_append: "used_handles (xs @ ys) = used_handles xs @ used_handles ys"
  by (induction xs rule: used_handles.induct) auto


lemma getClient_cases:
  "getClient e this w = (r, this', w') \<Longrightarrow>
     (\<exists>c. client this = Some c \<and> r = Inr c \<and> this' = this \<and> w' = w)
   \<or> (client this = None \<and> (\<exists>opts. w' = w @ [UpnpNat opts]) \<and>
        ((\<exists>err. upnpNat e w = Some err \<and> r = Inl err \<and> this' = this)
       \<or> (upnpNat e w = None \<and> r = Inr (new_handle w) \<and> this' = this\<lparr>client := Some (new_handle w)\<rparr>)))"
  by (auto simp: getClient_def Let_def split: option.splits)

lemma getClient_trace:
  "getClient e this w = (r, this', w') \<Longrightarrow>
     observed_addrs w' = observed_addrs w \<and> map_requests w' = map_requests w"
  by (auto dest!: getClient_cases simp: observed_addrs_append map_requests_append)

lemma publicIp_of_cases:
  "publicIp_of e this c w = (r, w') \<Longrightarrow>
     (\<exists>a. externalAddress this = Some a \<and> r = Inr a \<and> w' = w)
   \<or> (externalAddress this = None \<and> r = externalIp e w \<and> w' = w @ [ExternalIp c])"
  by (auto simp: publicIp_of_def split: option.splits)

lemma publicIp_of_trace:
  "publicIp_of e this c w = (r, w') \<Longrightarrow>
     observed_addrs w' = observed_addrs w \<and> map_requests w' = map_requests w"
  by (auto dest!: publicIp_of_cases simp: observed_addrs_append map_requests_append)

lemma map_addr_elim:
  assumes "map_addr e addr this w = (r, this', w')"
  obtains
    (client_fail) err where "getClient e this w = (Inl err, this', w')" "r = Inl err"
  | (ip_fail) c w1 err where "getClient e this w = (Inr c, this', w1)"
      "publicIp_of e this' c w1 = (Inl err, w')" "r = Inl err"
  | (ip_private) c w1 ip where "getClient e this w = (Inr c, this', w1)"
      "publicIp_of e this' c w1 = (Inr ip, w')" "isPrivateIp e ip = Some True"
      "r = Inl (Error (ip @ '' is private - please set config.nat.externalIp to an externally routable IP or ensure you are not behind a double NAT''))"
  | (ip_invalid) c w1 ip where "getClient e this w = (Inr c, this', w1)"
      "publicIp_of e this' c w1 = (Inr ip, w')" "isPrivateIp e ip = None"
      "r = Inl (Error (ip @ '' is not an IP address''))"
  | (map_fail) c w1 ip w2 err where "getClient e this w = (Inr c, this', w1)"
      "publicIp_of e this' c w1 = (Inr ip, w2)" "isPrivateIp e ip = Some False"
      "map_result e (w2 @ [LogOpening ip (highPort (random e w2) 1024 65535) (host addr) (port addr)]) = Some err"
      "r = Inl err"
      "w' = w2 @ [LogOpening ip (highPort (random e w2) 1024 65535) (host addr) (port addr),
                  Map c \<lparr>publicPort = highPort (random e w2) 1024 65535, localPort = port addr,
                         mr_localAddress = localAddress this',
                         mr_protocol = (if toUpperCase (transport addr) = ''TCP'' then TCP else UDP)\<rparr>]"
  | (mapped) c w1 ip w2 where "getClient e this w = (Inr c, this', w1)"
      "publicIp_of e this' c w1 = (Inr ip, w2)" "isPrivateIp e ip = Some False"
      "map_result e (w2 @ [LogOpening ip (highPort (random e w2) 1024 65535) (host addr) (port addr)]) = None"
      "r = Inr ()"
      "w' = w2 @ [LogOpening ip (highPort (random e w2) 1024 65535) (host addr) (port addr),
                  Map c \<lparr>publicPort = highPort (random e w2) 1024 65535, localPort = port addr,
                         mr_localAddress = localAddress this',
                         mr_protocol = (if toUpperCase (transport addr) = ''TCP'' then TCP else UDP)\<rparr>,
                  AddObservedAddr (fromNodeAddress 4 ip (highPort (random e w2) 1024 65535) (transport addr))]"
proof (cases "getClient e this w")
  case (fields rc this1 w1)
  show thesis
  proof (cases rc)
    case (Inl err)
    with fields assms show thesis by (intro client_fail[of err]) (auto simp: map_addr_def)
  next
    case (Inr c)
    note c = this
    show thesis
    proof (cases "publicIp_of e this1 c w1")
      case (Pair ri w2)
      show thesis
      proof (cases ri)
        case (Inl err)
        with fields c Pair assms show thesis
          by (intro ip_fail[of c w1 err]) (auto simp: map_addr_def)
      next
        case (Inr ip)
        note ip = this
        show thesis
        proof (cases "isPrivateIp e ip")
          case None
          with fields c Pair ip assms show thesis
            by (intro ip_invalid[of c w1 ip]) (auto simp: map_addr_def)
        next
          case (Some b)
          show thesis
          proof (cases b)
            case True
            with Some fields c Pair ip assms show thesis
              by (intro ip_private[of c w1 ip]) (auto simp: map_addr_def)
          next
            case False
            note b = this
            show thesis
            proof (cases "map_result e (w2 @ [LogOpening ip (highPort (random e w2) 1024 65535) (host addr) (port addr)])")
              case None
              with b Some fields c Pair ip assms show thesis
                by (intro mapped[of c w1 ip w2]) (auto simp: map_addr_def Let_def)
            next
              case (Some err)
              with b \<open>isPrivateIp e ip = Some b\<close> fields c Pair ip assms show thesis
                by (intro map_fail[of c w1 ip w2 err]) (auto simp: map_addr_def Let_def)
            qed
          qed
        qed
      qed
    qed
  qed
qed

lemma map_addr_events:
  assumes "map_addr e addr this w = (r, this', w')"
  shows "\<exists>evs. w' = w @ evs
     \<and> (this' = this \<or> (client this = None \<and> this' = this\<lparr>client := Some (new_handle w)\<rparr>))
     \<and> length (filter is_UpnpNat evs) \<le> 1
     \<and> (client this \<noteq> None \<longrightarrow> filter is_UpnpNat evs = [])
     \<and> (externalAddress this \<noteq> None \<longrightarrow> filter is_ExternalIp evs = [])
     \<and> (r = Inr () \<longrightarrow> client this' \<noteq> None)
     \<and> (\<forall>c \<in> set (used_handles evs). client this' = Some c)"
  using assms
  by (cases rule: map_addr_elim) (auto dest!: getClient_cases publicIp_of_cases)

lemma map_addr_requests:
  assumes "map_addr e addr this w = (r, this', w')"
  shows "\<exists>evs. w' = w @ evs
     \<and> (if r = Inr () then length (map_requests evs) = 1 \<and> length (observed_addrs evs) = 1
         else length (map_requests evs) \<le> 1 \<and> observed_addrs evs = [])
     \<and> (\<forall>q \<in> set (map_requests evs). localPort q = port addr
            \<and> mr_protocol q = (if toUpperCase (transport addr) = ''TCP'' then TCP else UDP)
            \<and> (\<exists>t. publicPort q = highPort (random e t) 1024 65535))
     \<and> (\<forall>a \<in> set (observed_addrs evs). na_family a = 4 \<and> na_transport a = transport addr
            \<and> (\<forall>ip. externalAddress this = Some ip \<longrightarrow> na_address a = ip))"
  using assms
  by (cases rule: map_addr_elim)
     (auto dest!: getClient_cases publicIp_of_cases simp: fromNodeAddress_def)

lemma map_addr_no_GetAddrs:
  assumes "map_addr e addr this w = (r, this', w')"
  shows "\<exists>evs. w' = w @ evs \<and> filter is_GetAddrs evs = []"
  using assms
  by (cases rule: map_addr_elim) (auto dest!: getClient_cases publicIp_of_cases)

lemma start_loop_skip:
  "\<not> eligible addr \<Longrightarrow> start_loop e (addr # addrs) this w = start_loop e addrs this w"
  by (auto simp: eligible_def)

lemma start_loop_eligible:
  "eligible addr \<Longrightarrow> start_loop e (addr # addrs) this w =
     (case map_addr e addr this w of
        (Inl err, this1, w1) \<Rightarrow> (Inl err, this1, w1)
      | (Inr u, this1, w1) \<Rightarrow> start_loop e addrs this1 w1)"
  by (simp add: eligible_def)

declare start_loop.simps(2) [simp del]

lemma start_loop_filter:
  "start_loop e addrs this w = start_loop e (filter eligible addrs) this w"
proof (induction addrs arbitrary: this w)
  case Nil
  show ?case by simp
next
  case (Cons addr addrs)
  show ?case
  proof (cases "eligible addr")
    case True
    then show ?thesis
      using Cons.IH by (simp add: start_loop_eligible split: prod.splits sum.splits)
  next
    case False
    then show ?thesis
      using Cons.IH by (simp add: start_loop_skip[OF False])
  qed
qed

lemma start_loop_events:
  "start_loop e addrs this w = (r, this', w') \<Longrightarrow>
   \<exists>evs. w' = w @ evs
     \<and> (this' = this \<or> (client this = None \<and> this' = this\<lparr>client := Some (new_handle w)\<rparr>))
     \<and> length (filter is_UpnpNat evs) \<le> 1
     \<and> (client this \<noteq> None \<longrightarrow> filter is_UpnpNat evs = [])
     \<and> (externalAddress this \<noteq> None \<longrightarrow> filter is_ExternalIp evs = [])
     \<and> (\<forall>c \<in> set (used_handles evs). client this' = Some c)"
proof (induction addrs arbitrary: this w r this' w')
  case Nil
  then show ?case by simp
next
  case (Cons addr addrs)
  show ?case
  proof (cases "eligible addr")
    case False
    with Cons.prems have "start_loop e addrs this w = (r, this', w')"
      by (simp only: start_loop_skip[OF False])
    from Cons.IH[OF this] show ?thesis .
  next
    case True
    obtain r1 this1 w1 where body: "map_addr e addr this w = (r1, this1, w1)"
      by (cases "map_addr e addr this w") auto
    from map_addr_events[OF body] obtain evs1 where e1:
      "w1 = w @ evs1"
      "this1 = this \<or> (client this = None \<and> this1 = this\<lparr>client := Some (new_handle w)\<rparr>)"
      "length (filter is_UpnpNat evs1) \<le> 1"
      "client this \<noteq> None \<longrightarrow> filter is_UpnpNat evs1 = []"
      "externalAddress this \<noteq> None \<longrightarrow> filter is_ExternalIp evs1 = []"
      "r1 = Inr () \<longrightarrow> client this1 \<noteq> None"
      "\<forall>c \<in> set (used_handles evs1). client this1 = Some c"
      by blast
    show ?thesis
    proof (cases r1)
      case (Inl err)
      with True body Cons.prems have "r = Inl err" "this' = this1" "w' = w1"
        by (simp_all add: start_loop_eligible)
      with e1 show ?thesis by blast
    next
      case (Inr u)
      with True body Cons.prems have rest: "start_loop e addrs this1 w1 = (r, this', w')"
        by (simp add: start_loop_eligible)
      from Inr e1 have held: "client this1 \<noteq> None" by simp
      from Cons.IH[OF rest] held obtain evs2 where e2:
        "w' = w1 @ evs2" "this' = this1"
        "filter is_UpnpNat evs2 = []"
        "externalAddress this1 \<noteq> None \<longrightarrow> filter is_ExternalIp evs2 = []"
        "\<forall>c \<in> set (used_handles evs2). client this' = Some c"
        by blast
      from e1(2) have ext: "externalAddress this1 = externalAddress this" by auto
      have "w' = w @ (evs1 @ evs2)" using e1(1) e2(1) by simp
      moreover have "length (filter is_UpnpNat (evs1 @ evs2)) \<le> 1" using e1(3) e2(3) by simp
      moreover have "client this \<noteq> None \<longrightarrow> filter is_UpnpNat (evs1 @ evs2) = []"
        using e1(4) e2(3) by simp
      moreover have "externalAddress this \<noteq> None \<longrightarrow> filter is_ExternalIp (evs1 @ evs2) = []"
        using e1(5) e2(4) ext by simp
      moreover have "\<forall>c \<in> set (used_handles (evs1 @ evs2)). client this' = Some c"
        using e1(7) e2(2,5) by (auto simp: used_handles_append)
      ultimately show ?thesis using e1(2) e2(2) by blast
    qed
  qed
qed

lemma start_loop_requests:
  "start_loop e addrs this w = (r, this', w') \<Longrightarrow>
   \<exists>evs. w' = w @ evs
     \<and> prefix (map localPort (map_requests evs)) (map port (filter eligible addrs))
     \<and> length (observed_addrs evs) \<le> length (map_requests evs)
     \<and> (r = Inr () \<longrightarrow> length (observed_addrs evs) = length (filter eligible addrs))
     \<and> (\<forall>q \<in> set (map_requests evs). mr_protocol q = TCP
            \<and> (\<exists>t. publicPort q = highPort (random e t) 1024 65535))
     \<and> (\<forall>a \<in> set (observed_addrs evs). na_family a = 4 \<and> na_transport a = ''tcp''
            \<and> (\<forall>ip. externalAddress this = Some ip \<longrightarrow> na_address a = ip))"
proof (induction addrs arbitrary: this w r this' w')
  case Nil
  then show ?case by simp
next
  case (Cons addr addrs)
  show ?case
  proof (cases "eligible addr")
    case False
    with Cons.prems have "start_loop e addrs this w = (r, this', w')"
      by (simp only: start_loop_skip[OF False])
    from Cons.IH[OF this] False show ?thesis by simp
  next
    case True
    then have tcp: "transport addr = ''tcp''" by (simp add: eligible_def)
    obtain r1 this1 w1 where body: "map_addr e addr this w = (r1, this1, w1)"
      by (cases "map_addr e addr this w") auto
    from map_addr_requests[OF body] tcp obtain evs1 where e1:
      "w1 = w @ evs1"
      "r1 = Inr () \<longrightarrow> length (map_requests evs1) = 1 \<and> length (observed_addrs evs1) = 1"
      "r1 \<noteq> Inr () \<longrightarrow> length (map_requests evs1) \<le> 1 \<and> observed_addrs evs1 = []"
      "\<forall>q \<in> set (map_requests evs1). localPort q = port addr \<and> mr_protocol q = TCP
            \<and> (\<exists>t. publicPort q = highPort (random e t) 1024 65535)"
      "\<forall>a \<in> set (observed_addrs evs1). na_family a = 4 \<and> na_transport a = ''tcp''
            \<and> (\<forall>ip. externalAddress this = Some ip \<longrightarrow> na_address a = ip)"
      by (auto simp: toUpperCase_tcp split: if_splits)
    from map_addr_events[OF body] have ext: "externalAddress this1 = externalAddress this"
      by auto
    have ports1: "map localPort (map_requests evs1) = replicate (length (map_requests evs1)) (port addr)"
      using e1(4) by (simp add: map_replicate_const[symmetric] cong: map_cong)
    show ?thesis
    proof (cases r1)
      case (Inl err)
      with True body Cons.prems have res: "r = Inl err" "this' = this1" "w' = w1"
        by (simp_all add: start_loop_eligible)
      from Inl e1(3) have short: "length (map_requests evs1) \<le> 1" "observed_addrs evs1 = []"
        by simp_all
      have "prefix (map localPort (map_requests evs1)) (map port (filter eligible (addr # addrs)))"
      proof (cases "map_requests evs1")
        case Nil
        then show ?thesis by simp
      next
        case (Cons q qs)
        with short have "qs = []" by simp
        with Cons ports1 True show ?thesis by simp
      qed
      with res e1 short show ?thesis by auto
    next
      case (Inr u)
      with True body Cons.prems have rest: "start_loop e addrs this1 w1 = (r, this', w')"
        by (simp add: start_loop_eligible)
      from Inr e1(2) have one: "length (map_requests evs1) = 1" "length (observed_addrs evs1) = 1"
        by simp_all
      from Cons.IH[OF rest] ext obtain evs2 where e2:
        "w' = w1 @ evs2"
        "prefix (map localPort (map_requests evs2)) (map port (filter eligible addrs))"
        "length (observed_addrs evs2) \<le> length (map_requests evs2)"
        "r = Inr () \<longrightarrow> length (observed_addrs evs2) = length (filter eligible addrs)"
        "\<forall>q \<in> set (map_requests evs2). mr_protocol q = TCP
            \<and> (\<exists>t. publicPort q = highPort (random e t) 1024 65535)"
        "\<forall>a \<in> set (observed_addrs evs2). na_family a = 4 \<and> na_transport a = ''tcp''
            \<and> (\<forall>ip. externalAddress this = Some ip \<longrightarrow> na_address a = ip)"
        by auto
      have "w' = w @ (evs1 @ evs2)" using e1(1) e2(1) by simp
      moreover have "prefix (map localPort (map_requests (evs1 @ evs2)))
                            (map port (filter eligible (addr # addrs)))"
        using ports1 one(1) e2(2) True by (simp add: map_requests_append)
      moreover have "length (observed_addrs (evs1 @ evs2)) \<le> length (map_requests (evs1 @ evs2))"
        using one e2(3) by (simp add: map_requests_append observed_addrs_append)
      moreover have "r = Inr () \<longrightarrow>
          length (observed_addrs (evs1 @ evs2)) = length (filter eligible (addr # addrs))"
        using one(2) e2(4) True by (simp add: observed_addrs_append)
      moreover have "\<forall>q \<in> set (map_requests (evs1 @ evs2)). mr_protocol q = TCP
            \<and> (\<exists>t. publicPort q = highPort (random e t) 1024 65535)"
        using e1(4) e2(5) by (auto simp: map_requests_append)
      moreover have "\<forall>a \<in> set (observed_addrs (evs1 @ evs2)). na_family a = 4 \<and> na_transport a = ''tcp''
            \<and> (\<forall>ip. externalAddress this = Some ip \<longrightarrow> na_address a = ip)"
        using e1(5) e2(6) by (auto simp: observed_addrs_append)
      ultimately show ?thesis by blast
    qed
  qed
qed


lemma start_loop_no_GetAddrs:
  "start_loop e addrs this w = (r, this', w') \<Longrightarrow>
     \<exists>evs. w' = w @ evs \<and> filter is_GetAddrs evs = []"
proof (induction addrs arbitrary: this w)
  case Nil
  then show ?case by simp
next
  case (Cons addr addrs)
  show ?case
  proof (cases "eligible addr")
    case False
    with Cons.prems have "start_loop e addrs this w = (r, this', w')"
      by (simp only: start_loop_skip[OF False])
    from Cons.IH[OF this] show ?thesis .
  next
    case True
    obtain r1 this1 w1 where body: "map_addr e addr this w = (r1, this1, w1)"
      by (cases "map_addr e addr this w") auto
    from map_addr_no_GetAddrs[OF body] obtain evs1 where
      e1: "w1 = w @ evs1" "filter is_GetAddrs evs1 = []" by blast
    show ?thesis
    proof (cases r1)
      case (Inl err)
      with True body Cons.prems have "w' = w1" by (simp add: start_loop_eligible)
      with e1 show ?thesis by blast
    next
      case (Inr u)
      with True body Cons.prems have "start_loop e addrs this1 w1 = (r, this', w')"
        by (simp add: start_loop_eligible)
      from Cons.IH[OF this] obtain evs2 where "w' = w1 @ evs2" "filter is_GetAddrs evs2 = []"
        by blast
      with e1 have "w' = w @ (evs1 @ evs2) \<and> filter is_GetAddrs (evs1 @ evs2) = []" by simp
      then show ?thesis by blast
    qed
  qed
qed

subsection \<open>The lifecycle\<close>

lemma NatManager_new_fields:
  "NatManager_new e pid init = Inr this \<Longrightarrow>
     externalAddress this = init_externalAddress init \<and> enabled this = init_enabled init
     \<and> \<not> started this \<and> client this = None"
  by (auto simp: NatManager_new_def Let_def split: if_splits)

lemma afterStart_guard:
  "isBrowser e \<or> \<not> enabled this \<or> started this \<Longrightarrow> afterStart e this w = (Inr (), this, w)"
  by (auto simp: afterStart_def)

lemma afterStart_launch:
  "\<not> isBrowser e \<Longrightarrow> enabled this \<Longrightarrow> \<not> started this \<Longrightarrow>
   afterStart e this w =
     (case start_task e (this\<lparr>started := True\<rparr>) w of
        (Inl err, this2, w2) \<Rightarrow> (Inr (), this2, w2 @ [LogError err])
      | (Inr u, this2, w2) \<Rightarrow> (Inr (), this2, w2))"
  by (simp add: afterStart_def)

lemma afterStart_first:
  assumes "\<not> isBrowser e" "enabled this" "\<not> started this"
  obtains this' evs where "afterStart e this w = (Inr (), this', w @ evs)"
    and "started this'"
    and "this' = this\<lparr>started := True\<rparr>
          \<or> (client this = None \<and> (\<exists>c. this' = this\<lparr>started := True, client := Some c\<rparr>))"
    and "length (filter is_GetAddrs evs) = 1"
    and "length (filter is_UpnpNat evs) \<le> 1"
    and "client this \<noteq> None \<longrightarrow> filter is_UpnpNat evs = []"
    and "externalAddress this \<noteq> None \<longrightarrow> filter is_ExternalIp evs = []"
    and "\<forall>q \<in> set (map_requests evs). mr_protocol q = TCP
            \<and> (\<exists>t. publicPort q = highPort (random e t) 1024 65535)"
    and "\<forall>a \<in> set (observed_addrs evs). na_family a = 4 \<and> na_transport a = ''tcp''
            \<and> (\<forall>ip. externalAddress this = Some ip \<longrightarrow> na_address a = ip)"
proof -
  obtain r this2 w2 where run:
    "start_loop e (getAddrs e w) (this\<lparr>started := True\<rparr>) (w @ [GetAddrs]) = (r, this2, w2)"
    by (cases "start_loop e (getAddrs e w) (this\<lparr>started := True\<rparr>) (w @ [GetAddrs])") auto
  from start_loop_events[OF run] obtain evs where e1:
    "w2 = (w @ [GetAddrs]) @ evs"
    "this2 = this\<lparr>started := True\<rparr> \<or>
       (client this = None \<and> this2 = this\<lparr>started := True, client := Some (new_handle (w @ [GetAddrs]))\<rparr>)"
    "length (filter is_UpnpNat evs) \<le> 1"
    "client this \<noteq> None \<longrightarrow> filter is_UpnpNat evs = []"
    "externalAddress this \<noteq> None \<longrightarrow> filter is_ExternalIp evs = []"
    by auto
  from start_loop_requests[OF run] e1(1) have e2:
    "\<forall>q \<in> set (map_requests evs). mr_protocol q = TCP
            \<and> (\<exists>t. publicPort q = highPort (random e t) 1024 65535)"
    "\<forall>a \<in> set (observed_addrs evs). na_family a = 4 \<and> na_transport a = ''tcp''
            \<and> (\<forall>ip. externalAddress this = Some ip \<longrightarrow> na_address a = ip)"
    by auto
  from start_loop_no_GetAddrs[OF run] e1(1) have no_get: "filter is_GetAddrs evs = []" by auto
  define evs' where "evs' = GetAddrs # evs @ (case r of Inl err \<Rightarrow> [LogError err] | Inr u \<Rightarrow> [])"
  have res: "afterStart e this w = (Inr (), this2, w @ evs')"
    using assms run e1(1) by (cases r) (simp_all add: afterStart_launch start_task_def evs'_def)
  have lg: "filter is_UpnpNat evs' = filter is_UpnpNat evs"
    "filter is_ExternalIp evs' = filter is_ExternalIp evs"
    "map_requests evs' = map_requests evs" "observed_addrs evs' = observed_addrs evs"
    "filter is_GetAddrs evs' = GetAddrs # filter is_GetAddrs evs"
    by (cases r; simp add: evs'_def map_requests_append observed_addrs_append)+
  from e1(2) have st: "started this2" by auto
  have "this2 = this\<lparr>started := True\<rparr>
          \<or> (client this = None \<and> (\<exists>c. this2 = this\<lparr>started := True, client := Some c\<rparr>))"
    using e1(2) by blast
  moreover have "length (filter is_GetAddrs evs') = 1" using no_get by (simp add: lg)
  ultimately show ?thesis
    using res st e1(3-5) e2 by (intro that[of this2 evs']) (simp_all only: lg)
qed

lemma stop_cases:
  "stop e this w = (r, this', w') \<Longrightarrow>
     r = Inr () \<and>
     ((this' = this \<and> w' = w \<and> (isBrowser e \<or> client this = None))
      \<or> (\<exists>c. \<not> isBrowser e \<and> client this = Some c \<and> close_result e w = None
             \<and> this' = this\<lparr>client := None\<rparr> \<and> w' = w @ [Close c])
      \<or> (\<exists>c err. \<not> isBrowser e \<and> client this = Some c \<and> close_result e w = Some err
             \<and> this' = this \<and> w' = w @ [Close c, LogError err]))"
  by (auto simp: stop_def split: if_splits option.splits)

lemma stop_events:
  assumes "stop e this w = (r, this', w')"
  shows "\<exists>evs. w' = w @ evs
     \<and> (this' = this \<or> this' = this\<lparr>client := None\<rparr>)
     \<and> filter is_GetAddrs evs = [] \<and> filter is_UpnpNat evs = []
     \<and> filter is_ExternalIp evs = [] \<and> map_requests evs = [] \<and> observed_addrs evs = []"
  using stop_cases[OF assms] by auto

lemma lifecycle_started:
  "started this \<Longrightarrow> lifecycle e cs (this, w) = (this', w') \<Longrightarrow>
   \<exists>evs. w' = w @ evs
     \<and> (this' = this \<or> this' = this\<lparr>client := None\<rparr>)
     \<and> filter is_GetAddrs evs = [] \<and> filter is_UpnpNat evs = []
     \<and> filter is_ExternalIp evs = [] \<and> map_requests evs = [] \<and> observed_addrs evs = []"
proof (induction cs arbitrary: this w)
  case Nil
  then show ?case by simp
next
  case (Cons c cs)
  obtain this1 w1 where step: "call_step e c (this, w) = (this1, w1)"
    by (cases "call_step e c (this, w)") auto
  have "\<exists>evs1. w1 = w @ evs1
     \<and> (this1 = this \<or> this1 = this\<lparr>client := None\<rparr>)
     \<and> filter is_GetAddrs evs1 = [] \<and> filter is_UpnpNat evs1 = []
     \<and> filter is_ExternalIp evs1 = [] \<and> map_requests evs1 = [] \<and> observed_addrs evs1 = []"
  proof (cases c)
    case Call_start
    with step show ?thesis by (simp add: start_def)
  next
    case Call_afterStart
    with step Cons.prems(1) show ?thesis by (simp add: afterStart_guard)
  next
    case Call_stop
    with step obtain r where "stop e this w = (r, this1, w1)"
      by (cases "stop e this w") auto
    from stop_events[OF this] show ?thesis .
  qed
  then obtain evs1 where e1: "w1 = w @ evs1"
     "this1 = this \<or> this1 = this\<lparr>client := None\<rparr>"
     "filter is_GetAddrs evs1 = []" "filter is_UpnpNat evs1 = []"
     "filter is_ExternalIp evs1 = []" "map_requests evs1 = []" "observed_addrs evs1 = []"
    by blast
  from e1(2) Cons.prems(1) have st1: "started this1" by auto
  from Cons.prems(2) step have "lifecycle e cs (this1, w1) = (this', w')" by simp
  from Cons.IH[OF st1 this] obtain evs2 where e2: "w' = w1 @ evs2"
     "this' = this1 \<or> this' = this1\<lparr>client := None\<rparr>"
     "filter is_GetAddrs evs2 = []" "filter is_UpnpNat evs2 = []"
     "filter is_ExternalIp evs2 = []" "map_requests evs2 = []" "observed_addrs evs2 = []"
    by blast
  have "w' = w @ (evs1 @ evs2)" using e1(1) e2(1) by simp
  moreover have "this' = this \<or> this' = this\<lparr>client := None\<rparr>" using e1(2) e2(2) by auto
  ultimately show ?case
    using e1(3-7) e2(3-7)
    by (intro exI[of _ "evs1 @ evs2"]) (simp add: map_requests_append observed_addrs_append)
qed

lemma lifecycle_events:
  "lifecycle e cs (this, w) = (this', w') \<Longrightarrow>
   \<exists>evs. w' = w @ evs
     \<and> externalAddress this' = externalAddress this
     \<and> (started this \<longrightarrow> started this')
     \<and> length (filter is_GetAddrs evs) \<le> 1
     \<and> length (filter is_UpnpNat evs) \<le> 1
     \<and> (externalAddress this \<noteq> None \<longrightarrow> filter is_ExternalIp evs = [])
     \<and> (\<forall>q \<in> set (map_requests evs). mr_protocol q = TCP
            \<and> (\<exists>t. publicPort q = highPort (random e t) 1024 65535))
     \<and> (\<forall>a \<in> set (observed_addrs evs). na_family a = 4 \<and> na_transport a = ''tcp''
            \<and> (\<forall>ip. externalAddress this = Some ip \<longrightarrow> na_address a = ip))"
proof (induction cs arbitrary: this w)
  case Nil
  then show ?case by simp
next
  case (Cons c cs)
  show ?case
  proof (cases "started this")
    case True
    from lifecycle_started[OF True Cons.prems] obtain evs where
      "w' = w @ evs" "this' = this \<or> this' = this\<lparr>client := None\<rparr>"
      "filter is_GetAddrs evs = []" "filter is_UpnpNat evs = []"
      "filter is_ExternalIp evs = []" "map_requests evs = []" "observed_addrs evs = []"
      by blast
    then show ?thesis using True by (intro exI[of _ evs]) auto
  next
    case False
    obtain this1 w1 where step: "call_step e c (this, w) = (this1, w1)"
      by (cases "call_step e c (this, w)") auto
    with Cons.prems have rest: "lifecycle e cs (this1, w1) = (this', w')" by simp
    consider (quiet) evs1 where "w1 = w @ evs1" "this1 = this \<or> this1 = this\<lparr>client := None\<rparr>"
        "filter is_GetAddrs evs1 = []" "filter is_UpnpNat evs1 = []"
        "filter is_ExternalIp evs1 = []" "map_requests evs1 = []" "observed_addrs evs1 = []"
      | (launch) "c = Call_afterStart" "\<not> isBrowser e" "enabled this"
    proof (cases c)
      case Call_start
      with step have "w1 = w @ []" "this1 = this" by (simp_all add: start_def)
      then show ?thesis by (intro quiet[of "[]"]) simp_all
    next
      case Call_stop
      with step obtain r where "stop e this w = (r, this1, w1)"
        by (cases "stop e this w") auto
      from stop_events[OF this] show ?thesis using quiet by blast
    next
      case Call_afterStart
      show ?thesis
      proof (cases "isBrowser e \<or> \<not> enabled this")
        case True
        then have "afterStart e this w = (Inr (), this, w)" by (auto simp: afterStart_guard)
        with step Call_afterStart have "w1 = w @ []" "this1 = this"
          by simp_all
        then show ?thesis by (intro quiet[of "[]"]) simp_all
      next
        case False
        with Call_afterStart show ?thesis using launch by blast
      qed
    qed
    then show ?thesis
    proof cases
      case quiet
      from quiet(2) have ext: "externalAddress this1 = externalAddress this" by auto
      from Cons.IH[OF rest] ext obtain evs2 where e2: "w' = w1 @ evs2"
        "externalAddress this' = externalAddress this"
        "length (filter is_GetAddrs evs2) \<le> 1"
        "length (filter is_UpnpNat evs2) \<le> 1"
        "externalAddress this \<noteq> None \<longrightarrow> filter is_ExternalIp evs2 = []"
        "\<forall>q \<in> set (map_requests evs2). mr_protocol q = TCP
            \<and> (\<exists>t. publicPort q = highPort (random e t) 1024 65535)"
        "\<forall>a \<in> set (observed_addrs evs2). na_family a = 4 \<and> na_transport a = ''tcp''
            \<and> (\<forall>ip. externalAddress this = Some ip \<longrightarrow> na_address a = ip)"
        by auto
      have "w' = w @ (evs1 @ evs2)" using quiet(1) e2(1) by simp
      then show ?thesis
        using False e2(2-7) quiet(3-7)
        by (intro exI[of _ "evs1 @ evs2"]) (simp add: map_requests_append observed_addrs_append)
    next
      case launch
      obtain this2 evs1 where a: "afterStart e this w = (Inr (), this2, w @ evs1)"
        and e1': "started this2"
        "this2 = this\<lparr>started := True\<rparr>
          \<or> (client this = None \<and> (\<exists>c. this2 = this\<lparr>started := True, client := Some c\<rparr>))"
        "length (filter is_GetAddrs evs1) = 1"
        "length (filter is_UpnpNat evs1) \<le> 1"
        "client this \<noteq> None \<longrightarrow> filter is_UpnpNat evs1 = []"
        "externalAddress this \<noteq> None \<longrightarrow> filter is_ExternalIp evs1 = []"
        "\<forall>q \<in> set (map_requests evs1). mr_protocol q = TCP
            \<and> (\<exists>t. publicPort q = highPort (random e t) 1024 65535)"
        "\<forall>a \<in> set (observed_addrs evs1). na_family a = 4 \<and> na_transport a = ''tcp''
            \<and> (\<forall>ip. externalAddress this = Some ip \<longrightarrow> na_address a = ip)"
        by (rule afterStart_first[OF launch(2,3) False, of w])
      from a step launch(1) have eq: "this1 = this2" "w1 = w @ evs1" by simp_all
      note e1 = eq(2) e1'[folded eq(1)]
      from e1(3) have ext: "externalAddress this1 = externalAddress this" by auto
      from lifecycle_started[OF e1(2) rest] obtain evs2 where e2: "w' = w1 @ evs2"
        "this' = this1 \<or> this' = this1\<lparr>client := None\<rparr>"
        "filter is_GetAddrs evs2 = []" "filter is_UpnpNat evs2 = []"
        "filter is_ExternalIp evs2 = []" "map_requests evs2 = []" "observed_addrs evs2 = []"
        by blast
      from e2(2) ext have ext': "externalAddress this' = externalAddress this" by auto
      have "w' = w @ (evs1 @ evs2)" using e1(1) e2(1) by simp
      then show ?thesis
        using False ext' e1(4,5,7-9) e2(3-7)
        by (intro exI[of _ "evs1 @ evs2"]) (simp add: map_requests_append observed_addrs_append)
    qed
  qed
qed

subsection \<open>The example run\<close>

lemmas ex_defs = init_override_def manager_override_def env_ex_def env_double_nat_def env_browser_def env_close_fails_def init_ex_def
  manager_ex_def addr_lan_def addr_lan2_def addr_loopback_def addr_ip6_def addr_udp_def addr_ws_def
  isPrivateIp_ex_def

lemma new_ex: "NatManager_new env_ex ''QmPeer'' init_ex = Inr manager_ex"
  by (simp add: NatManager_new_def ex_defs DEFAULT_TTL_def)


lemma eligible_lan: "eligible addr_lan"
  by (simp add: eligible_def addr_lan_def)

lemma filter_ex: "filter eligible [addr_loopback, addr_lan, addr_ip6] = [addr_lan]"
  by (simp add: eligible_def ex_defs)

lemma getClient_ex:
  "getClient e manager_ex [] = 
    (case upnpNat e [] of Some err \<Rightarrow> (Inl err, manager_ex, [UpnpNat \<lparr>uo_description = ''libp2p@0.40.0 QmPeer'', uo_ttl = 7200,
           uo_keepAlive = True, uo_gateway = None\<rparr>])
   | None \<Rightarrow> (Inr 0, manager_ex\<lparr>client := Some 0\<rparr>,
      [UpnpNat \<lparr>uo_description = ''libp2p@0.40.0 QmPeer'', uo_ttl = 7200,
           uo_keepAlive = True, uo_gateway = None\<rparr>]))"
  by (simp add: getClient_def manager_ex_def new_handle_def Let_def split: option.splits)



lemma map_addr_ex:
  "map_addr env_ex addr_lan (manager_ex\<lparr>started := True\<rparr>) [GetAddrs] = (Inr (), running_ex, trace_ex)"
  by (simp add: map_addr_def getClient_def publicIp_of_def Let_def new_handle_def
      fromNodeAddress_def highPort_half toUpperCase_tcp running_ex_def trace_ex_def ex_defs)

lemma start_task_ex:
  "start_task env_ex (manager_ex\<lparr>started := True\<rparr>) [] = (Inr (), running_ex, trace_ex)"
proof -
  have "start_task env_ex (manager_ex\<lparr>started := True\<rparr>) [] =
          start_loop env_ex [addr_loopback, addr_lan, addr_ip6] (manager_ex\<lparr>started := True\<rparr>) [GetAddrs]"
    by (simp add: start_task_def env_ex_def)
  also have "\<dots> = start_loop env_ex [addr_lan] (manager_ex\<lparr>started := True\<rparr>) [GetAddrs]"
    by (subst start_loop_filter) (simp only: filter_ex)
  also have "\<dots> = (Inr (), running_ex, trace_ex)"
    by (simp add: start_loop_eligible[OF eligible_lan] map_addr_ex)
  finally show ?thesis .
qed

lemma afterStart_ex: "afterStart env_ex manager_ex [] = (Inr (), running_ex, trace_ex)"
proof -
  have "\<not> isBrowser env_ex" "enabled manager_ex" "\<not> started manager_ex"
    by (simp_all add: env_ex_def manager_ex_def)
  then show ?thesis by (simp add: afterStart_launch start_task_ex)
qed

section \<open>The claims\<close>



text \<open>
  C2. At any point of a run, when the loop reaches an eligible address, the client is
  acquired, and the public IP resolved for it (the override or the gateway's answer) is
  classified private or is not an IP address, the run ends there with the error that
  names the address and the reason. The rest of the addresses is not visited: the run
  returns the trace as it was after resolving the IP, and this holds no observed address
  and no mapping request beyond those present before.
\<close>

theorem C2_private_or_invalid_public_ip_aborts_run:
  assumes "eligible addr"
    and "getClient e this w = (Inr c, this1, w1)"
    and "publicIp_of e this1 c w1 = (Inr ip, w2)"
    and "isPrivateIp e ip \<noteq> Some False"
  shows "start_loop e (addr # addrs) this w =
           (Inl (Error (ip @ (if isPrivateIp e ip = Some True
              then '' is private - please set config.nat.externalIp to an externally routable IP or ensure you are not behind a double NAT''
              else '' is not an IP address''))), this1, w2)
         \<and> observed_addrs w2 = observed_addrs w \<and> map_requests w2 = map_requests w"
proof -
  have "map_addr e addr this w =
           (Inl (Error (ip @ (if isPrivateIp e ip = Some True
              then '' is private - please set config.nat.externalIp to an externally routable IP or ensure you are not behind a double NAT''
              else '' is not an IP address''))), this1, w2)"
    using assms(2-4) by (cases "isPrivateIp e ip") (auto simp: map_addr_def Let_def)
  then have "start_loop e (addr # addrs) this w =
           (Inl (Error (ip @ (if isPrivateIp e ip = Some True
              then '' is private - please set config.nat.externalIp to an externally routable IP or ensure you are not behind a double NAT''
              else '' is not an IP address''))), this1, w2)"
    using assms(1) by (simp add: start_loop_eligible)
  moreover have "observed_addrs w2 = observed_addrs w \<and> map_requests w2 = map_requests w"
    using getClient_trace[OF assms(2)] publicIp_of_trace[OF assms(3)] by simp
  ultimately show ?thesis by simp
qed

theorem C2_witness:
  "start_loop env_double_nat [addr_lan, addr_lan2] manager_ex [] =
     (Inl (Error ''10.0.0.5 is private - please set config.nat.externalIp to an externally routable IP or ensure you are not behind a double NAT''),
      manager_ex\<lparr>client := Some 0\<rparr>,
      [UpnpNat \<lparr>uo_description = ''libp2p@0.40.0 QmPeer'', uo_ttl = 7200,
           uo_keepAlive = True, uo_gateway = None\<rparr>, ExternalIp 0])"
proof -
  have g: "getClient env_double_nat manager_ex [] = (Inr 0, manager_ex\<lparr>client := Some 0\<rparr>,
      [UpnpNat \<lparr>uo_description = ''libp2p@0.40.0 QmPeer'', uo_ttl = 7200,
           uo_keepAlive = True, uo_gateway = None\<rparr>])"
    by (simp add: getClient_ex) (simp add: env_double_nat_def env_ex_def)
  have p: "publicIp_of env_double_nat (manager_ex\<lparr>client := Some 0\<rparr>) 0
      [UpnpNat \<lparr>uo_description = ''libp2p@0.40.0 QmPeer'', uo_ttl = 7200,
           uo_keepAlive = True, uo_gateway = None\<rparr>] = (Inr ''10.0.0.5'', 
      [UpnpNat \<lparr>uo_description = ''libp2p@0.40.0 QmPeer'', uo_ttl = 7200,
           uo_keepAlive = True, uo_gateway = None\<rparr>, ExternalIp 0])"
    by (simp add: publicIp_of_def manager_ex_def env_double_nat_def env_ex_def)
  have i: "isPrivateIp env_double_nat ''10.0.0.5'' = Some True"
    by (simp add: env_double_nat_def env_ex_def isPrivateIp_ex_def)
  then have i': "isPrivateIp env_double_nat ''10.0.0.5'' \<noteq> Some False" by simp
  from C2_private_or_invalid_public_ip_aborts_run[OF eligible_lan g p i', of "[addr_lan2]"] i
  show ?thesis by simp
qed



text \<open>
  C4. Construction with an effective ttl (the configured one, or 7200 when none is
  configured) below 7200 throws the \<^verbatim>\<open>CodeError\<close> with code
  \<^verbatim>\<open>ERR_INVALID_PARAMETERS\<close> and yields no instance; with an effective ttl of 7200
  or more it yields an instance, which holds that ttl, is not started and has no client.
\<close>

theorem C4_ttl_validated_at_construction:
  "(effective_ttl init < 7200 \<longrightarrow>
      NatManager_new e pid init =
        Inl (CodeError ''NatManager ttl should be at least 7200 seconds'' ERR_INVALID_PARAMETERS))
   \<and> (7200 \<le> effective_ttl init \<longrightarrow>
        (\<exists>this. NatManager_new e pid init = Inr this \<and> ttl this = effective_ttl init
           \<and> \<not> started this \<and> client this = None))"
  by (simp add: NatManager_new_def effective_ttl_def DEFAULT_TTL_def Let_def split: option.splits)

theorem C4_witness:
  "NatManager_new env_ex ''QmPeer'' (init_ex\<lparr>init_ttl := Some 7199\<rparr>) =
     Inl (CodeError ''NatManager ttl should be at least 7200 seconds'' ERR_INVALID_PARAMETERS)
   \<and> (\<exists>this. NatManager_new env_ex ''QmPeer'' (init_ex\<lparr>init_ttl := Some 7200\<rparr>) = Inr this)
   \<and> (\<exists>this. NatManager_new env_ex ''QmPeer'' init_ex = Inr this)"
  using C4_ttl_validated_at_construction[of "init_ex\<lparr>init_ttl := Some 7199\<rparr>" env_ex "''QmPeer''"]
    C4_ttl_validated_at_construction[of "init_ex\<lparr>init_ttl := Some 7200\<rparr>" env_ex "''QmPeer''"]
    C4_ttl_validated_at_construction[of "init_ex" env_ex "''QmPeer''"]
  by (auto simp: effective_ttl_def init_ex_def)




text \<open>
  C6 (as stated, refuted). The claim has \<^verbatim>\<open>stop\<close> clear the client reference
  whenever a client exists. When \<^verbatim>\<open>close\<close> rejects, the assignment
  \<^verbatim>\<open>this.client = undefined\<close> after the \<^verbatim>\<open>await\<close> is not reached: the running
  manager of the example, stopped in an environment whose \<^verbatim>\<open>close\<close> rejects, still
  holds client 0 afterwards.
\<close>

theorem C6_counterexample:
  "client running_ex = Some 0
   \<and> stop env_close_fails running_ex trace_ex =
       (Inr (), running_ex, trace_ex @ [Close 0, LogError (Rejected ''socket closed'')])
   \<and> client (fst (snd (stop env_close_fails running_ex trace_ex))) = Some 0"
  by (simp add: stop_def env_close_fails_def env_ex_def running_ex_def manager_ex_def)

text \<open>
  C6 (amended). \<^verbatim>\<open>stop\<close> never throws. It is a no-op when the manager holds no
  client, and in a browser. Otherwise it calls \<^verbatim>\<open>close\<close> on the client it holds,
  once: when \<^verbatim>\<open>close\<close> succeeds the reference is cleared, and \<^verbatim>\<open>stop\<close> on the
  manager it leaves is a no-op; when \<^verbatim>\<open>close\<close> rejects, the error is logged and not
  thrown, and the manager is left as it was, still holding the client.
\<close>

theorem C6_stop_closes_and_swallows_errors:
  "fst (stop e this w) = Inr ()
   \<and> (client this = None \<longrightarrow> stop e this w = (Inr (), this, w))
   \<and> (isBrowser e \<longrightarrow> stop e this w = (Inr (), this, w))
   \<and> (\<not> isBrowser e \<and> client this = Some c \<and> close_result e w = None \<longrightarrow>
        stop e this w = (Inr (), this\<lparr>client := None\<rparr>, w @ [Close c])
        \<and> (\<forall>w''. stop e (this\<lparr>client := None\<rparr>) w'' = (Inr (), this\<lparr>client := None\<rparr>, w'')))
   \<and> (\<not> isBrowser e \<and> client this = Some c \<and> close_result e w = Some err \<longrightarrow>
        stop e this w = (Inr (), this, w @ [Close c, LogError err]))"
  by (auto simp: stop_def split: option.splits)

theorem C6_witness:
  "\<not> isBrowser env_ex \<and> client running_ex = Some 0 \<and> close_result env_ex trace_ex = None
   \<and> stop env_ex running_ex trace_ex = (Inr (), running_ex\<lparr>client := None\<rparr>, trace_ex @ [Close 0])
   \<and> stop env_ex (running_ex\<lparr>client := None\<rparr>) (trace_ex @ [Close 0]) =
        (Inr (), running_ex\<lparr>client := None\<rparr>, trace_ex @ [Close 0])
   \<and> client manager_ex = None \<and> stop env_ex manager_ex [] = (Inr (), manager_ex, [])"
proof -
  have h: "\<not> isBrowser env_ex \<and> client running_ex = Some 0 \<and> close_result env_ex trace_ex = None"
    by (simp add: env_ex_def running_ex_def)
  have n: "client manager_ex = None" by (simp add: manager_ex_def)
  note claim = C6_stop_closes_and_swallows_errors
  note a = claim[of env_ex running_ex trace_ex 0, THEN conjunct2, THEN conjunct2, THEN conjunct2,
      THEN conjunct1, rule_format, OF h]
  note b = claim[of env_ex manager_ex "[]", THEN conjunct2, THEN conjunct1, rule_format, OF n]
  from a b h n show ?thesis by simp
qed

text \<open>
  C7. With an \<^verbatim>\<open>externalAddress\<close> override the public IP of every pass through the
  loop body is the override, obtained without a call: no run of the loop, from any state
  of such a manager, adds an \<^verbatim>\<open>externalIp()\<close> call to the trace, and every observed
  address it registers carries the override as its address. For a manager constructed
  with the override this holds through its whole life: no sequence of \<^verbatim>\<open>start\<close>,
  \<^verbatim>\<open>afterStart\<close> and \<^verbatim>\<open>stop\<close> calls leads to an \<^verbatim>\<open>externalIp()\<close> call.
\<close>

theorem C7_override_replaces_externalIp:
  "(externalAddress this = Some ip \<longrightarrow>
      publicIp_of e this c w = (Inr ip, w)
      \<and> (\<exists>evs. snd (snd (start_loop e addrs this w)) = w @ evs
            \<and> filter is_ExternalIp evs = []
            \<and> (\<forall>a \<in> set (observed_addrs evs). na_address a = ip)))
   \<and> (NatManager_new e pid init = Inr made \<and> init_externalAddress init = Some ip \<longrightarrow>
        (\<forall>cs. \<exists>evs. snd (lifecycle e cs (made, w)) = w @ evs
            \<and> filter is_ExternalIp evs = []
            \<and> (\<forall>a \<in> set (observed_addrs evs). na_address a = ip)))"
proof (intro conjI impI allI)
  assume "externalAddress this = Some ip"
  then show "publicIp_of e this c w = (Inr ip, w)" by (simp add: publicIp_of_def)
next
  assume ov: "externalAddress this = Some ip"
  obtain r this' w' where run: "start_loop e addrs this w = (r, this', w')"
    by (cases "start_loop e addrs this w") auto
  from start_loop_events[OF run] ov obtain evs where
    e1: "w' = w @ evs" "filter is_ExternalIp evs = []" by auto
  from start_loop_requests[OF run] e1(1) ov
  have "\<forall>a \<in> set (observed_addrs evs). na_address a = ip" by auto
  with e1 run show "\<exists>evs. snd (snd (start_loop e addrs this w)) = w @ evs
            \<and> filter is_ExternalIp evs = []
            \<and> (\<forall>a \<in> set (observed_addrs evs). na_address a = ip)"
    by auto
next
  fix cs
  assume "NatManager_new e pid init = Inr made \<and> init_externalAddress init = Some ip"
  with NatManager_new_fields[of e pid init made] have ov: "externalAddress made = Some ip"
    by simp
  obtain this' w' where l: "lifecycle e cs (made, w) = (this', w')"
    by (cases "lifecycle e cs (made, w)") auto
  from lifecycle_events[OF l] ov obtain evs where
    "w' = w @ evs" "filter is_ExternalIp evs = []"
    "\<forall>a \<in> set (observed_addrs evs). na_address a = ip"
    by auto
  with l show "\<exists>evs. snd (lifecycle e cs (made, w)) = w @ evs
            \<and> filter is_ExternalIp evs = []
            \<and> (\<forall>a \<in> set (observed_addrs evs). na_address a = ip)"
    by auto
qed

theorem C7_witness:
  "NatManager_new env_ex ''QmPeer'' init_override = Inr manager_override
   \<and> init_externalAddress init_override = Some ''203.0.113.7''
   \<and> (\<exists>evs. snd (lifecycle env_ex [Call_start, Call_afterStart, Call_stop] (manager_override, [])) = evs
         \<and> filter is_ExternalIp evs = []
         \<and> (\<forall>a \<in> set (observed_addrs evs). na_address a = ''203.0.113.7''))"
proof -
  have h: "NatManager_new env_ex ''QmPeer'' init_override = Inr manager_override
      \<and> init_externalAddress init_override = Some ''203.0.113.7''"
    by (simp add: NatManager_new_def DEFAULT_TTL_def ex_defs)
  from C7_override_replaces_externalIp[where e = env_ex and pid = "''QmPeer''"
        and init = init_override and made = manager_override and ip = "''203.0.113.7''" and w = "[]",
      THEN conjunct2, rule_format, OF h, of "[Call_start, Call_afterStart, Call_stop]"] h
  show ?thesis by simp
qed



text \<open>
  C9. For every random number in [0, 1), that is for every binary64 value \<open>r\<close> with
  \<open>0 \<le> r < 1\<close>, the port chooser, called as the loop calls it and computing in
  binary64 arithmetic, returns an integer from 1024 to 65535. When \<^verbatim>\<open>Math.random\<close>
  keeps to these values, every mapping request of a run of the loop carries as
  \<open>publicPort\<close> a value the chooser returned for one of the random numbers, hence an
  integer from 1024 to 65535.
\<close>

theorem C9_public_port_in_range:
  "(is_double r \<and> 0 \<le> r \<and> r < 1 \<longrightarrow>
      1024 \<le> highPort r 1024 65535 \<and> highPort r 1024 65535 \<le> 65535)
   \<and> ((\<forall>t. is_double (random e t) \<and> 0 \<le> random e t \<and> random e t < 1) \<longrightarrow>
        (\<exists>evs. snd (snd (start_loop e addrs this w)) = w @ evs
           \<and> (\<forall>q \<in> set (map_requests evs).
                 (\<exists>t. publicPort q = highPort (random e t) 1024 65535)
                 \<and> 1024 \<le> publicPort q \<and> publicPort q \<le> 65535)))"
proof (intro conjI impI)
  assume "is_double r \<and> 0 \<le> r \<and> r < 1"
  then show "1024 \<le> highPort r 1024 65535" by (simp add: highPort_range)
next
  assume "is_double r \<and> 0 \<le> r \<and> r < 1"
  then show "highPort r 1024 65535 \<le> 65535" by (simp add: highPort_range)
next
  assume rnd: "\<forall>t. is_double (random e t) \<and> 0 \<le> random e t \<and> random e t < 1"
  obtain res this' w' where run: "start_loop e addrs this w = (res, this', w')"
    by (cases "start_loop e addrs this w") auto
  from start_loop_requests[OF run] obtain evs where e1: "w' = w @ evs"
    "\<forall>q \<in> set (map_requests evs). mr_protocol q = TCP
            \<and> (\<exists>t. publicPort q = highPort (random e t) 1024 65535)"
    by blast
  have "\<forall>q \<in> set (map_requests evs).
                 (\<exists>t. publicPort q = highPort (random e t) 1024 65535)
                 \<and> 1024 \<le> publicPort q \<and> publicPort q \<le> 65535"
  proof
    fix q assume "q \<in> set (map_requests evs)"
    with e1(2) obtain t where t: "publicPort q = highPort (random e t) 1024 65535" by blast
    from rnd have "is_double (random e t)" "0 \<le> random e t" "random e t < 1" by simp_all
    from highPort_range[OF this] t
    show "(\<exists>t. publicPort q = highPort (random e t) 1024 65535)
                 \<and> 1024 \<le> publicPort q \<and> publicPort q \<le> 65535"
      by auto
  qed
  with e1(1) run show "\<exists>evs. snd (snd (start_loop e addrs this w)) = w @ evs
           \<and> (\<forall>q \<in> set (map_requests evs).
                 (\<exists>t. publicPort q = highPort (random e t) 1024 65535)
                 \<and> 1024 \<le> publicPort q \<and> publicPort q \<le> 65535)"
    by auto
qed

theorem C9_witness:
  "is_double (1 / 2) \<and> (0::real) \<le> 1 / 2 \<and> (1 / 2 :: real) < 1
   \<and> highPort (1 / 2) 1024 65535 = 33280
   \<and> (\<forall>t. is_double (random env_ex t) \<and> 0 \<le> random env_ex t \<and> random env_ex t < 1)
   \<and> (\<exists>evs. trace_ex = [GetAddrs] @ evs
         \<and> (\<forall>q \<in> set (map_requests evs). 1024 \<le> publicPort q \<and> publicPort q \<le> 65535))"
proof -
  note claim = C9_public_port_in_range
  have r: "\<forall>t. is_double (random env_ex t) \<and> 0 \<le> random env_ex t \<and> random env_ex t < 1"
    using is_double_half by (simp add: env_ex_def)
  have run: "start_loop env_ex [addr_lan] (manager_ex\<lparr>started := True\<rparr>) [GetAddrs] =
      (Inr (), running_ex, trace_ex)"
    by (simp add: start_loop_eligible[OF eligible_lan] map_addr_ex)
  from claim[of _ env_ex "[addr_lan]" "manager_ex\<lparr>started := True\<rparr>" "[GetAddrs]",
      THEN conjunct2, THEN mp, OF r]
  have "\<exists>evs. trace_ex = [GetAddrs] @ evs
         \<and> (\<forall>q \<in> set (map_requests evs). 1024 \<le> publicPort q \<and> publicPort q \<le> 65535)"
    unfolding run by auto
  with claim[of "1 / 2", THEN conjunct1] r is_double_half show ?thesis
    by (simp add: highPort_half)
qed

text \<open>
  C10. Every mapping request sent to the gateway client has protocol \<open>TCP\<close>: in any run
  of the loop and over any sequence of \<^verbatim>\<open>start\<close>, \<^verbatim>\<open>afterStart\<close> and \<^verbatim>\<open>stop\<close>
  calls. For an address that passes the filter the protocol selection takes its
  \<open>TCP\<close> branch, so the \<open>UDP\<close> branch is never taken.
\<close>

theorem C10_mapping_protocol_is_TCP:
  "(\<exists>evs. snd (snd (start_loop e addrs this w)) = w @ evs
       \<and> (\<forall>q \<in> set (map_requests evs). mr_protocol q = TCP))
   \<and> (\<forall>cs. \<exists>evs. snd (lifecycle e cs (this, w)) = w @ evs
       \<and> (\<forall>q \<in> set (map_requests evs). mr_protocol q = TCP))
   \<and> (eligible addr \<longrightarrow> (if toUpperCase (transport addr) = ''TCP'' then TCP else UDP) = TCP)"
proof (intro conjI impI allI)
  obtain res this' w' where run: "start_loop e addrs this w = (res, this', w')"
    by (cases "start_loop e addrs this w") auto
  from start_loop_requests[OF run] obtain evs where "w' = w @ evs"
    "\<forall>q \<in> set (map_requests evs). mr_protocol q = TCP
            \<and> (\<exists>t. publicPort q = highPort (random e t) 1024 65535)"
    by blast
  with run show "\<exists>evs. snd (snd (start_loop e addrs this w)) = w @ evs
       \<and> (\<forall>q \<in> set (map_requests evs). mr_protocol q = TCP)"
    by auto
next
  fix cs
  obtain this' w' where l: "lifecycle e cs (this, w) = (this', w')"
    by (cases "lifecycle e cs (this, w)") auto
  from lifecycle_events[OF l] obtain evs where "w' = w @ evs"
    "\<forall>q \<in> set (map_requests evs). mr_protocol q = TCP
            \<and> (\<exists>t. publicPort q = highPort (random e t) 1024 65535)"
    by blast
  with l show "\<exists>evs. snd (lifecycle e cs (this, w)) = w @ evs
       \<and> (\<forall>q \<in> set (map_requests evs). mr_protocol q = TCP)"
    by auto
next
  assume "eligible addr"
  then show "(if toUpperCase (transport addr) = ''TCP'' then TCP else UDP) = TCP"
    by (simp add: eligible_def toUpperCase_tcp)
qed

theorem C10_witness:
  "eligible addr_lan
   \<and> (if toUpperCase (transport addr_lan) = ''TCP'' then TCP else UDP) = TCP
   \<and> (\<exists>evs. trace_ex = [GetAddrs] @ evs \<and> (\<forall>q \<in> set (map_requests evs). mr_protocol q = TCP))"
proof -
  note claim = C10_mapping_protocol_is_TCP
  have run: "start_loop env_ex [addr_lan] (manager_ex\<lparr>started := True\<rparr>) [GetAddrs] =
      (Inr (), running_ex, trace_ex)"
    by (simp add: start_loop_eligible[OF eligible_lan] map_addr_ex)
  from claim[of env_ex "[addr_lan]" "manager_ex\<lparr>started := True\<rparr>" "[GetAddrs]", THEN conjunct1]
  have "\<exists>evs. trace_ex = [GetAddrs] @ evs \<and> (\<forall>q \<in> set (map_requests evs). mr_protocol q = TCP)"
    unfolding run by simp
  with claim[of _ _ _ _ addr_lan, THEN conjunct2, THEN conjunct2] eligible_lan
  show ?thesis by simp
qed

end
